theory Spec2Isabelle
  imports Main "HOL-Library.Char_ord" "HOL-Library.List_Lexorder" "HOL-Library.Product_Lexorder"
    "HOL-Library.Multiset"
begin

section \<open>Strings\<close>

text \<open>
  JavaScript strings are modelled as \<^typ>\<open>string\<close>, one \<^typ>\<open>char\<close> per code unit; the
  model covers the ASCII range, where bytes, code units and code points coincide. Of the
  white space beyond ASCII, the no-break space is the one a \<^typ>\<open>char\<close> can hold.
\<close>

definition newline :: char where
  "newline = CHR 0x0A"

definition dquote :: char where
  "dquote = CHR 0x22"

definition squote :: char where
  "squote = CHR 0x27"

text \<open>\<^verbatim>\<open>s.split(c)\<close> for a one-character separator: the pieces between the separators,
  so a string with \<open>n\<close> separators has \<open>n + 1\<close> pieces and the empty string has one.\<close>

fun split_acc :: "char \<Rightarrow> string \<Rightarrow> string \<Rightarrow> string list" where
  "split_acc c acc [] = [rev acc]"
| "split_acc c acc (x # xs) =
     (if x = c then rev acc # split_acc c [] xs else split_acc c (x # acc) xs)"

definition split_on :: "char \<Rightarrow> string \<Rightarrow> string list" where
  "split_on c s = split_acc c [] s"

text \<open>\<^verbatim>\<open>xs.join(sep)\<close>\<close>

fun join_with :: "string \<Rightarrow> string list \<Rightarrow> string" where
  "join_with sep [] = []"
| "join_with sep [x] = x"
| "join_with sep (x # y # ys) = x @ sep @ join_with sep (y # ys)"

definition starts_with :: "string \<Rightarrow> string \<Rightarrow> bool" where
  "starts_with s p = (take (length p) s = p)"

definition ends_with :: "string \<Rightarrow> string \<Rightarrow> bool" where
  "ends_with s p = (length p \<le> length s \<and> drop (length s - length p) s = p)"

text \<open>\<^verbatim>\<open>s.includes(p)\<close>\<close>

fun str_includes :: "string \<Rightarrow> string \<Rightarrow> bool" where
  "str_includes [] p = (p = [])"
| "str_includes (x # xs) p = (starts_with (x # xs) p \<or> str_includes xs p)"

definition is_space :: "char \<Rightarrow> bool" where
  "is_space c = (c \<in> set [CHR 0x09, CHR 0x0A, CHR 0x0B, CHR 0x0C, CHR 0x0D, CHR 0x20, CHR 0xA0])"

definition is_upper :: "char \<Rightarrow> bool" where
  "is_upper c = (CHR ''A'' \<le> c \<and> c \<le> CHR ''Z'')"

definition is_lower :: "char \<Rightarrow> bool" where
  "is_lower c = (CHR ''a'' \<le> c \<and> c \<le> CHR ''z'')"

definition is_digit :: "char \<Rightarrow> bool" where
  "is_digit c = (CHR ''0'' \<le> c \<and> c \<le> CHR ''9'')"

text \<open>The class \<^verbatim>\<open>\w\<close>.\<close>

definition is_word :: "char \<Rightarrow> bool" where
  "is_word c = (is_upper c \<or> is_lower c \<or> is_digit c \<or> c = CHR ''_'')"

definition to_lower :: "char \<Rightarrow> char" where
  "to_lower c = (if is_upper c then char_of (of_char c + (32::nat)) else c)"

definition toLowerCase :: "string \<Rightarrow> string" where
  "toLowerCase s = map to_lower s"

definition trim :: "string \<Rightarrow> string" where
  "trim s = rev (dropWhile is_space (rev (dropWhile is_space s)))"

text \<open>\<^verbatim>\<open>xs.indexOf(x)\<close>, \<open>None\<close> for \<^verbatim>\<open>-1\<close>.\<close>

fun indexOf :: "'a list \<Rightarrow> 'a \<Rightarrow> nat option" where
  "indexOf [] x = None"
| "indexOf (y # ys) x = (if y = x then Some 0 else map_option Suc (indexOf ys x))"

section \<open>Regular expressions\<close>

text \<open>
  The regular expressions of the analyzer use literals, single character classes, greedy
  \<^verbatim>\<open>*\<close> and \<^verbatim>\<open>+\<close> on a character class, alternation, optional groups, capture groups and
  the anchors \<^verbatim>\<open>^\<close> and \<^verbatim>\<open>$\<close> (\<open>Start\<close> and \<open>End\<close>; \<open>Bol\<close> and \<open>Eol\<close> under the
  multiline flag). They are represented as values of \<open>re\<close> and run by a
  backtracking matcher with the priorities of the JavaScript one: a greedy quantifier
  tries the longest repetition first, an alternation its left branch first, an optional
  group its presence first.
\<close>

datatype cclass = Ws | Wd | WdStar | Upper | AnyOf string | NoneOf string

fun cc :: "cclass \<Rightarrow> char \<Rightarrow> bool" where
  "cc Ws c = is_space c"
| "cc Wd c = is_word c"
| "cc WdStar c = (is_word c \<or> c = CHR ''*'')"
| "cc Upper c = is_upper c"
| "cc (AnyOf s) c = (c \<in> set s)"
| "cc (NoneOf s) c = (c \<notin> set s)"

datatype re =
    Lit string
  | One cclass
  | Star cclass
  | Plus cclass
  | Seq re re
  | Alt re re
  | Opt re
  | Cap nat re
  | Start
  | Bol
  | Eol
  | End

text \<open>A sequence of parts, as a regular expression is written.\<close>

fun cat :: "re list \<Rightarrow> re" where
  "cat [] = Lit []"
| "cat [r] = r"
| "cat (r # rs) = Seq r (cat rs)"

text \<open>The matcher's position: the character before it (\<open>None\<close> at the start of the
  input), the input still ahead, and the captures made so far.\<close>

record mstate =
  prev :: "char option"
  rest :: string
  caps :: "(nat \<times> string) list"

definition line_terminator :: "char \<Rightarrow> bool" where
  "line_terminator c = (c = CHR 0x0A \<or> c = CHR 0x0D)"

fun star :: "(char \<Rightarrow> bool) \<Rightarrow> mstate \<Rightarrow> (mstate \<Rightarrow> 'a option) \<Rightarrow> string \<Rightarrow> 'a option" where
  "star p st k [] = k (st\<lparr>rest := []\<rparr>)"
| "star p st k (x # xs) =
     (if p x then
        (case star p (st\<lparr>prev := Some x\<rparr>) k xs of
           Some r \<Rightarrow> Some r
         | None \<Rightarrow> k (st\<lparr>rest := x # xs\<rparr>))
      else k (st\<lparr>rest := x # xs\<rparr>))"

fun rm :: "re \<Rightarrow> mstate \<Rightarrow> (mstate \<Rightarrow> 'a option) \<Rightarrow> 'a option" where
  "rm (Lit s) st k =
     (if starts_with (rest st) s
      then k (st\<lparr>prev := (if s = [] then prev st else Some (last s)),
                 rest := drop (length s) (rest st)\<rparr>)
      else None)"
| "rm (One c) st k =
     (case rest st of
        [] \<Rightarrow> None
      | x # xs \<Rightarrow> if cc c x then k (st\<lparr>prev := Some x, rest := xs\<rparr>) else None)"
| "rm (Star c) st k = star (cc c) st k (rest st)"
| "rm (Plus c) st k =
     (case rest st of
        [] \<Rightarrow> None
      | x # xs \<Rightarrow> if cc c x then star (cc c) (st\<lparr>prev := Some x\<rparr>) k xs else None)"
| "rm (Seq a b) st k = rm a st (\<lambda>st'. rm b st' k)"
| "rm (Alt a b) st k =
     (case rm a st k of Some r \<Rightarrow> Some r | None \<Rightarrow> rm b st k)"
| "rm (Opt a) st k =
     (case rm a st k of Some r \<Rightarrow> Some r | None \<Rightarrow> k st)"
| "rm (Cap n a) st k =
     rm a st (\<lambda>st'. k (st'\<lparr>caps :=
        (n, take (length (rest st) - length (rest st')) (rest st)) # caps st'\<rparr>))"
| "rm Start st k = (if prev st = None then k st else None)"
| "rm Bol st k =
     (case prev st of
        None \<Rightarrow> k st
      | Some c \<Rightarrow> if line_terminator c then k st else None)"
| "rm Eol st k =
     (case rest st of
        [] \<Rightarrow> k st
      | x # xs \<Rightarrow> if line_terminator x then k st else None)"
| "rm End st k = (if rest st = [] then k st else None)"

text \<open>One match attempt at the current position, and the search for the leftmost match
  (\<^verbatim>\<open>exec\<close>): the text skipped before the match and the position after it.\<close>

definition match_here :: "re \<Rightarrow> char option \<Rightarrow> string \<Rightarrow> mstate option" where
  "match_here r pv s = rm r \<lparr>prev = pv, rest = s, caps = []\<rparr> Some"

fun exec :: "re \<Rightarrow> char option \<Rightarrow> string \<Rightarrow> (string \<times> mstate) option" where
  "exec r pv [] = map_option (Pair []) (match_here r pv [])"
| "exec r pv (x # xs) =
     (case match_here r pv (x # xs) of
        Some st \<Rightarrow> Some ([], st)
      | None \<Rightarrow> map_option (\<lambda>(skipped, st). (x # skipped, st)) (exec r (Some x) xs))"

text \<open>\<^verbatim>\<open>re.test(s)\<close> for a regular expression without the global flag.\<close>

definition test :: "re \<Rightarrow> string \<Rightarrow> bool" where
  "test r s = (exec r None s \<noteq> None)"

text \<open>The capture groups of a match, by number; a group that took no part is \<open>[]\<close>.\<close>

definition capture :: "mstate \<Rightarrow> nat \<Rightarrow> string" where
  "capture st n = (case map_of (caps st) n of Some g \<Rightarrow> g | None \<Rightarrow> [])"

text \<open>
  The loop \<^verbatim>\<open>while ((match = re.exec(content)) !== null)\<close> of a regular expression with
  the global flag: each search starts where the match before it ended. A match that
  consumes nothing would leave JavaScript's loop where it is for ever; the loop of the
  model ends there. No regular expression of the analyzer has such a match
  (\<open>min_len\<close> below is positive for each of them).
\<close>

function exec_all :: "re \<Rightarrow> char option \<Rightarrow> string \<Rightarrow> mstate list" where
  "exec_all r pv s =
     (case exec r pv s of
        None \<Rightarrow> []
      | Some (skipped, st) \<Rightarrow>
          if length (rest st) < length s then st # exec_all r (prev st) (rest st)
          else [st])"
  by pat_completeness auto
termination
  by (relation "measure (\<lambda>(r, pv, s). length s)") auto

declare exec_all.simps [simp del]

definition matchAll :: "re \<Rightarrow> string \<Rightarrow> mstate list" where
  "matchAll r s = exec_all r None s"

text \<open>The least number of characters a match consumes.\<close>

fun min_len :: "re \<Rightarrow> nat" where
  "min_len (Lit s) = length s"
| "min_len (One c) = 1"
| "min_len (Star c) = 0"
| "min_len (Plus c) = 1"
| "min_len (Seq a b) = min_len a + min_len b"
| "min_len (Alt a b) = min (min_len a) (min_len b)"
| "min_len (Opt a) = 0"
| "min_len (Cap n a) = min_len a"
| "min_len Start = 0"
| "min_len Bol = 0"
| "min_len Eol = 0"
| "min_len End = 0"

text \<open>\<^verbatim>\<open>s.split(/\s+/)\<close>\<close>

function split_ws_acc :: "string \<Rightarrow> string \<Rightarrow> string list" where
  "split_ws_acc acc [] = [rev acc]"
| "split_ws_acc acc (x # xs) =
     (if is_space x then rev acc # split_ws_acc [] (dropWhile is_space xs)
      else split_ws_acc (x # acc) xs)"
  by pat_completeness auto
termination
  by (relation "measure (\<lambda>(acc, s). length s)")
     (auto simp: length_dropWhile_le le_imp_less_Suc)

definition split_ws :: "string \<Rightarrow> string list" where
  "split_ws s = split_ws_acc [] s"

text \<open>Adding to a \<^verbatim>\<open>Set\<close>, which keeps the order of first insertion.\<close>

definition set_add :: "'a \<Rightarrow> 'a list \<Rightarrow> 'a list" where
  "set_add x xs = (if x \<in> set xs then xs else xs @ [x])"

text \<open>\<^verbatim>\<open>[...new Set(xs)]\<close>: the first occurrence of each element, in order.\<close>

definition uniq :: "'a list \<Rightarrow> 'a list" where
  "uniq xs = fold set_add xs []"

text \<open>\<^verbatim>\<open>s.replace(/[\/\\]/g, "_")\<close>\<close>

definition replace_separators :: "string \<Rightarrow> string" where
  "replace_separators s =
     map (\<lambda>c. if c = CHR ''/'' \<or> c = CHR 0x5C then CHR ''_'' else c) s"

text \<open>\<^verbatim>\<open>s.replace(re, "")\<close> for a regular expression without the global flag: the
  leftmost match is cut out.\<close>

definition remove_first :: "re \<Rightarrow> string \<Rightarrow> string" where
  "remove_first r s =
     (case exec r None s of
        None \<Rightarrow> s
      | Some (skipped, st) \<Rightarrow> skipped @ rest st)"

section \<open>Paths\<close>

text \<open>
  The functions of Node's \<^verbatim>\<open>path\<close> module that the analyzer calls, in their POSIX form
  (\<^verbatim>\<open>path.sep\<close> is \<^verbatim>\<open>/\<close>). The working directory of the process, which
  \<^verbatim>\<open>path.resolve\<close> and \<^verbatim>\<open>path.relative\<close> consult for a relative path, is taken to be the
  root; both callers of the analyzer pass it an absolute path.
\<close>

definition slash :: char where
  "slash = CHR ''/''"

definition isAbsolute :: "string \<Rightarrow> bool" where
  "isAbsolute p = (case p of [] \<Rightarrow> False | c # _ \<Rightarrow> c = slash)"

text \<open>The segments of a path with \<^verbatim>\<open>.\<close>, \<^verbatim>\<open>..\<close> and empty segments resolved; the
  segments kept so far are held in reverse.\<close>

fun normalize_segs :: "bool \<Rightarrow> string list \<Rightarrow> string list \<Rightarrow> string list" where
  "normalize_segs allow res [] = rev res"
| "normalize_segs allow res (s # ss) =
     (if s = [] \<or> s = ''.'' then normalize_segs allow res ss
      else if s = ''..'' then
        (case res of
           [] \<Rightarrow> normalize_segs allow (if allow then [''..''] else []) ss
         | r # rs \<Rightarrow>
             if r = ''..'' then normalize_segs allow (''..'' # r # rs) ss
             else normalize_segs allow rs ss)
      else normalize_segs allow (s # res) ss)"

definition path_normalize :: "string \<Rightarrow> string" where
  "path_normalize p =
     (if p = [] then ''.''
      else
        let isabs = isAbsolute p;
            trailing = (last p = slash);
            res = join_with ''/'' (normalize_segs (\<not> isabs) [] (split_on slash p))
        in if res = [] then (if isabs then ''/'' else if trailing then ''./'' else ''.'')
           else (if isabs then ''/'' else []) @ res @ (if trailing then ''/'' else []))"

definition path_join :: "string list \<Rightarrow> string" where
  "path_join args =
     (let parts = filter (\<lambda>a. a \<noteq> []) args
      in if parts = [] then ''.'' else path_normalize (join_with ''/'' parts))"

text \<open>\<^verbatim>\<open>path.resolve(from, to)\<close>: an absolute path without a trailing slash.\<close>

definition resolve_segs :: "string list \<Rightarrow> string list" where
  "resolve_segs args =
     normalize_segs False []
       (concat (map (split_on slash)
          (foldr (\<lambda>a acc. if acc \<noteq> [] \<and> isAbsolute (hd acc) then acc else
                            if a = [] then acc else a # acc) args [])))"

definition path_resolve :: "string list \<Rightarrow> string" where
  "path_resolve args = ''/'' @ join_with ''/'' (resolve_segs args)"

fun strip_common :: "string list \<Rightarrow> string list \<Rightarrow> string list \<times> string list" where
  "strip_common (x # xs) (y # ys) =
     (if x = y then strip_common xs ys else (x # xs, y # ys))"
| "strip_common xs ys = (xs, ys)"

definition path_relative :: "string \<Rightarrow> string \<Rightarrow> string" where
  "path_relative fromP toP =
     (case strip_common (resolve_segs [fromP]) (resolve_segs [toP]) of
        (up, down) \<Rightarrow> join_with ''/'' (replicate (length up) ''..'' @ down))"

text \<open>The last segment of a path, trailing slashes ignored.\<close>

definition last_segment :: "string \<Rightarrow> string" where
  "last_segment p =
     rev (takeWhile (\<lambda>c. c \<noteq> slash) (dropWhile (\<lambda>c. c = slash) (rev p)))"

definition path_extname :: "string \<Rightarrow> string" where
  "path_extname p =
     (let base = last_segment p;
          after = rev (takeWhile (\<lambda>c. c \<noteq> CHR ''.'') (rev base))
      in if CHR ''.'' \<notin> set base then []
         else if length after + 1 = length base then []
         else if base = ''..'' then []
         else CHR ''.'' # after)"

definition path_basename :: "string \<Rightarrow> string \<Rightarrow> string" where
  "path_basename p ext =
     (let base = last_segment p
      in if ext \<noteq> [] \<and> p = ext then []
         else if ext \<noteq> [] \<and> ends_with base ext \<and> base \<noteq> ext
         then take (length base - length ext) base
         else base)"

definition path_dirname :: "string \<Rightarrow> string" where
  "path_dirname p =
     (case p of
        [] \<Rightarrow> ''.''
      | c # cs \<Rightarrow>
          let found = dropWhile (\<lambda>x. x \<noteq> slash) (dropWhile (\<lambda>x. x = slash) (rev cs))
          in if found = [] then (if c = slash then ''/'' else ''.'')
             else if c = slash \<and> length found = 1 then ''//''
             else take (length found) p)"

section \<open>The file system\<close>

text \<open>
  The file system the analyzer reads is a tree: a file with its content (\<open>None\<close> when
  reading it fails), or a directory with its entries in the order \<^verbatim>\<open>readdirSync\<close>
  lists them. Symbolic links are not modelled.
\<close>

datatype fsnode =
    File "string option"
  | Dir "(string \<times> fsnode) list"

datatype error = ENOENT | ENOTDIR | EISDIR | EACCES

text \<open>Path lookup from the root, by segments; the nodes on the way are kept for
  \<^verbatim>\<open>..\<close>. A segment after a file is an error, also the empty one of a trailing slash.\<close>

fun fs_walk :: "fsnode list \<Rightarrow> string list \<Rightarrow> fsnode option" where
  "fs_walk [] segs = None"
| "fs_walk (cur # up) [] = Some cur"
| "fs_walk (File c # up) (s # segs) = None"
| "fs_walk (Dir es # up) (s # segs) =
     (if s = [] \<or> s = ''.'' then fs_walk (Dir es # up) segs
      else if s = ''..'' then
        (if up = [] then fs_walk [Dir es] segs else fs_walk up segs)
      else
        (case map_of es s of
           None \<Rightarrow> None
         | Some n \<Rightarrow> fs_walk (n # Dir es # up) segs))"

definition fs_lookup :: "fsnode \<Rightarrow> string \<Rightarrow> fsnode option" where
  "fs_lookup root p = (if p = [] then None else fs_walk [root] (split_on slash p))"

definition existsSync :: "fsnode \<Rightarrow> string \<Rightarrow> bool" where
  "existsSync root p = (fs_lookup root p \<noteq> None)"

text \<open>\<^verbatim>\<open>fs.statSync(p).isFile()\<close>, for a path that exists.\<close>

definition statIsFile :: "fsnode \<Rightarrow> string \<Rightarrow> bool" where
  "statIsFile root p = (case fs_lookup root p of Some (File c) \<Rightarrow> True | _ \<Rightarrow> False)"

definition readFileSync :: "fsnode \<Rightarrow> string \<Rightarrow> error + string" where
  "readFileSync root p =
     (case fs_lookup root p of
        None \<Rightarrow> Inl ENOENT
      | Some (Dir es) \<Rightarrow> Inl EISDIR
      | Some (File None) \<Rightarrow> Inl EACCES
      | Some (File (Some content)) \<Rightarrow> Inr content)"

text \<open>\<^verbatim>\<open>fs.readdirSync(p, { withFileTypes: true })\<close>: the entries of a directory, each
  with its node (\<^verbatim>\<open>entry.isDirectory()\<close> is whether the node is a \<open>Dir\<close>).\<close>

definition readdirSync :: "fsnode \<Rightarrow> string \<Rightarrow> error + (string \<times> fsnode) list" where
  "readdirSync root p =
     (case fs_lookup root p of
        None \<Rightarrow> Inl ENOENT
      | Some (File c) \<Rightarrow> Inl ENOTDIR
      | Some (Dir es) \<Rightarrow> Inr es)"

section \<open>Sorting and insertion-ordered maps\<close>

text \<open>
  \<^verbatim>\<open>Array.prototype.sort\<close> with a comparison function is a stable sort; it is modelled
  by the stable insertion sort, which a consistent comparison function cannot tell from
  any other stable sort.
\<close>

fun insert_by :: "('a \<Rightarrow> 'a \<Rightarrow> int) \<Rightarrow> 'a \<Rightarrow> 'a list \<Rightarrow> 'a list" where
  "insert_by cmp x [] = [x]"
| "insert_by cmp x (y # ys) =
     (if cmp x y \<le> 0 then x # y # ys else y # insert_by cmp x ys)"

definition sort_by :: "('a \<Rightarrow> 'a \<Rightarrow> int) \<Rightarrow> 'a list \<Rightarrow> 'a list" where
  "sort_by cmp xs = foldr (insert_by cmp) xs []"

text \<open>A \<^verbatim>\<open>Map\<close> keeps its keys in the order of their first insertion; setting a key
  that is present replaces its value in place.\<close>

fun map_set :: "'k \<Rightarrow> 'v \<Rightarrow> ('k \<times> 'v) list \<Rightarrow> ('k \<times> 'v) list" where
  "map_set k v [] = [(k, v)]"
| "map_set k v ((k', v') # m) =
     (if k' = k then (k, v) # m else (k', v') # map_set k v m)"

definition map_get :: "('k \<times> 'v) list \<Rightarrow> 'k \<Rightarrow> 'v option" where
  "map_get m k = map_of m k"

section \<open>The comparison of strings\<close>

text \<open>
  \<^verbatim>\<open>String.prototype.localeCompare\<close> belongs to the runtime, not to the analyzer, and the
  analyzers below take it as the parameter \<open>lc\<close>. What Node computes for it in an English
  locale is the root collation of ICU; on ASCII strings that is the comparison below.
  Every character has a primary weight: white space, then punctuation and symbols in the
  order of \<open>collationOrder\<close>, then the digits, then the letters, a letter and its capital
  with the same weight; control characters have none and are skipped. Two strings are
  compared by their primary weights, and when these are equal by the case of their
  letters, lower case first.
\<close>

definition collationOrder :: string where
  "collationOrder =
     [CHR 0x09, CHR 0x0A, CHR 0x0B, CHR 0x0C, CHR 0x0D, CHR 0x20] @
     ''_-,;:!?.'' @ [CHR 0x27, CHR 0x22] @ ''()[]{}@*/'' @ [CHR 0x5C] @ ''&#%'' @ [CHR 0x60] @
     ''^+<=>|~$0123456789abcdefghijklmnopqrstuvwxyz''"

definition primaryWeight :: "char \<Rightarrow> nat option" where
  "primaryWeight c = indexOf collationOrder (to_lower c)"

definition collationKey :: "string \<Rightarrow> nat list \<times> nat list" where
  "collationKey s =
     (List.map_filter primaryWeight s,
      map (\<lambda>c. if is_upper c then 1 else 0) (filter (\<lambda>c. primaryWeight c \<noteq> None) s))"

definition localeCompareAscii :: "string \<Rightarrow> string \<Rightarrow> int" where
  "localeCompareAscii a b =
     (if collationKey a = collationKey b then 0
      else if collationKey a < collationKey b then -1 else 1)"

section \<open>Route analyzer\<close>

text \<open>
  Two things the analyzer takes from its environment are parameters of the model:
  \<open>lc\<close> is \<^verbatim>\<open>String.prototype.localeCompare\<close>, and \<open>now\<close> is the time that
  \<^verbatim>\<open>new Date().toISOString()\<close> reads.
\<close>

datatype HttpMethod = GET | POST | PUT | DELETE | PATCH

definition HTTP_METHODS :: "HttpMethod list" where
  "HTTP_METHODS = [GET, POST, PUT, DELETE, PATCH]"

fun method_name :: "HttpMethod \<Rightarrow> string" where
  "method_name GET = ''GET''"
| "method_name POST = ''POST''"
| "method_name PUT = ''PUT''"
| "method_name DELETE = ''DELETE''"
| "method_name PATCH = ''PATCH''"

datatype AuthType = Public | Protected | Admin

record RouteInfo =
  route_path :: string
  route_method :: HttpMethod
  route_feature :: string
  route_auth :: AuthType
  route_file :: string

record RouteData =
  rd_routes :: "RouteInfo list"
  rd_generatedAt :: string
  rd_projectPath :: string

text \<open>The walk below a directory that exists: \<open>es\<close> are the entries of \<open>dir\<close>. The
  walk descends into the node of an entry, which is what the entry's path names.\<close>

fun api_walk :: "(string \<times> fsnode) list \<Rightarrow> string \<Rightarrow> string list" where
  "api_walk [] dir = []"
| "api_walk ((name, Dir sub) # es) dir =
     api_walk sub (path_join [dir, name]) @ api_walk es dir"
| "api_walk ((name, File c) # es) dir =
     (if name = ''route.ts'' \<or> name = ''route.js'' then [path_join [dir, name]] else [])
     @ api_walk es dir"

definition findApiRoutes :: "fsnode \<Rightarrow> string \<Rightarrow> error + string list" where
  "findApiRoutes root dir =
     (if \<not> existsSync root dir then Inr []
      else case readdirSync root dir of
             Inl e \<Rightarrow> Inl e
           | Inr entries \<Rightarrow> Inr (api_walk entries dir))"

text \<open>\<^verbatim>\<open>export\s+(async\s+)?function\s+METHOD\s*\(\<close> and
  \<^verbatim>\<open>export\s+const\s+METHOD\s*=\<close>\<close>

definition method_patterns :: "HttpMethod \<Rightarrow> re list" where
  "method_patterns m =
     [cat [Lit ''export'', Plus Ws, Opt (Cap 1 (cat [Lit ''async'', Plus Ws])),
           Lit ''function'', Plus Ws, Lit (method_name m), Star Ws, Lit ''(''],
      cat [Lit ''export'', Plus Ws, Lit ''const'', Plus Ws, Lit (method_name m),
           Star Ws, Lit ''='']]"

definition extractMethods :: "string \<Rightarrow> HttpMethod list" where
  "extractMethods content =
     filter (\<lambda>m. list_ex (\<lambda>pattern. test pattern content) (method_patterns m)) HTTP_METHODS"

definition extractAuthType :: "string \<Rightarrow> AuthType" where
  "extractAuthType content =
     (let lowerContent = toLowerCase content
      in if str_includes lowerContent ''requireadmin'' \<or>
            str_includes lowerContent ''isadmin'' \<or>
            str_includes lowerContent (''role === '' @ [squote] @ ''admin'' @ [squote]) \<or>
            str_includes lowerContent (''role === '' @ [dquote] @ ''admin'' @ [dquote])
         then Admin
         else if str_includes lowerContent ''getauthenticateduser'' \<or>
                 str_includes lowerContent ''auth.protect'' \<or>
                 str_includes lowerContent ''requireauth'' \<or>
                 str_includes lowerContent ''getserversession'' \<or>
                 str_includes lowerContent ''currentuser'' \<or>
                 str_includes lowerContent ''unauthorized''
         then Protected
         else Public)"

definition pathToApiRoute :: "string \<Rightarrow> string \<Rightarrow> string" where
  "pathToApiRoute filePath projectPath =
     (let relativePath = path_relative projectPath filePath;
          parts = split_on slash relativePath
      in case indexOf parts ''api'' of
           None \<Rightarrow> ''/'' @ join_with ''/'' (butlast parts)
         | Some apiIndex \<Rightarrow> ''/'' @ join_with ''/'' (drop apiIndex (butlast parts)))"

definition extractFeature :: "string \<Rightarrow> string" where
  "extractFeature routePath =
     (let parts = filter (\<lambda>p. p \<noteq> []) (split_on slash routePath)
      in if length parts \<ge> 2 \<and> parts ! 0 = ''api'' then parts ! 1
         else case parts of [] \<Rightarrow> ''root'' | p # _ \<Rightarrow> p)"

text \<open>The body of the loop over the route files: the records of one file, none when
  the file cannot be read.\<close>

definition routeRecords :: "fsnode \<Rightarrow> string \<Rightarrow> string \<Rightarrow> RouteInfo list" where
  "routeRecords root projectPath routeFile =
     (case readFileSync root routeFile of
        Inl e \<Rightarrow> []
      | Inr content \<Rightarrow>
          let methods = extractMethods content;
              auth = extractAuthType content;
              routePath = pathToApiRoute routeFile projectPath;
              feature = extractFeature routePath
          in map (\<lambda>m. \<lparr>route_path = routePath, route_method = m, route_feature = feature,
                        route_auth = auth,
                        route_file = path_relative projectPath routeFile\<rparr>) methods)"

definition possibleApiDirs :: "string \<Rightarrow> string list" where
  "possibleApiDirs projectPath =
     [path_join [projectPath, ''app'', ''api''],
      path_join [projectPath, ''src'', ''app'', ''api''],
      path_join [projectPath, ''pages'', ''api''],
      path_join [projectPath, ''src'', ''pages'', ''api'']]"

text \<open>The loop over the API directories; listing a directory can throw, and then the
  whole pass does.\<close>

fun collectRoutes :: "fsnode \<Rightarrow> string \<Rightarrow> string list \<Rightarrow> RouteInfo list \<Rightarrow> error + RouteInfo list" where
  "collectRoutes root projectPath [] routes = Inr routes"
| "collectRoutes root projectPath (apiDir # dirs) routes =
     (case findApiRoutes root apiDir of
        Inl e \<Rightarrow> Inl e
      | Inr routeFiles \<Rightarrow>
          collectRoutes root projectPath dirs
            (routes @ concat (map (routeRecords root projectPath) routeFiles)))"

definition compareRoutes :: "(string \<Rightarrow> string \<Rightarrow> int) \<Rightarrow> RouteInfo \<Rightarrow> RouteInfo \<Rightarrow> int" where
  "compareRoutes lc a b =
     (let pathCompare = lc (route_path a) (route_path b)
      in if pathCompare \<noteq> 0 then pathCompare
         else lc (method_name (route_method a)) (method_name (route_method b)))"

definition analyzeRoutes ::
  "fsnode \<Rightarrow> (string \<Rightarrow> string \<Rightarrow> int) \<Rightarrow> string \<Rightarrow> string \<Rightarrow> error + RouteData" where
  "analyzeRoutes root lc now projectPath =
     (case collectRoutes root projectPath (possibleApiDirs projectPath) [] of
        Inl e \<Rightarrow> Inl e
      | Inr routes \<Rightarrow>
          Inr \<lparr>rd_routes = sort_by (compareRoutes lc) routes,
               rd_generatedAt = now, rd_projectPath = projectPath\<rparr>)"

section \<open>Component analyzer\<close>

datatype ComponentType = Client | Server

record ComponentInfo =
  comp_name :: string
  comp_path :: string
  comp_directory :: string
  comp_type :: ComponentType
  comp_dependencies :: "string list"
  comp_linesOfCode :: nat

record DirectoryInfo =
  dir_path :: string
  dir_label :: string
  dir_componentCount :: nat

record ComponentData =
  cd_components :: "ComponentInfo list"
  cd_directories :: "DirectoryInfo list"
  cd_generatedAt :: string
  cd_projectPath :: string

definition COMPONENT_EXTENSIONS :: "string list" where
  "COMPONENT_EXTENSIONS = [''.tsx'', ''.jsx'']"

definition IGNORED_DIRS :: "string list" where
  "IGNORED_DIRS = [''node_modules'', ''.next'', ''.git'', ''dist'', ''build'',
                   ''__tests__'', ''__mocks__'']"

text \<open>\<^verbatim>\<open>/^[A-Z]/\<close>\<close>

definition starts_upper :: re where
  "starts_upper = cat [Start, One Upper]"

definition isComponentFile :: "string \<Rightarrow> bool" where
  "isComponentFile filePath =
     (let ext = path_extname filePath
      in if ext \<notin> set COMPONENT_EXTENSIONS then False
         else test starts_upper (path_basename filePath ext))"

fun component_walk :: "(string \<times> fsnode) list \<Rightarrow> string \<Rightarrow> string list \<Rightarrow> string list" where
  "component_walk [] dir files = files"
| "component_walk ((name, Dir sub) # es) dir files =
     (if name \<in> set IGNORED_DIRS then component_walk es dir files
      else component_walk es dir (component_walk sub (path_join [dir, name]) files))"
| "component_walk ((name, File c) # es) dir files =
     (if name \<in> set IGNORED_DIRS then component_walk es dir files
      else if isComponentFile (path_join [dir, name])
      then component_walk es dir (files @ [path_join [dir, name]])
      else component_walk es dir files)"

definition findComponentFiles :: "fsnode \<Rightarrow> string \<Rightarrow> error + string list" where
  "findComponentFiles root dir =
     (if \<not> existsSync root dir then Inr []
      else case readdirSync root dir of
             Inl e \<Rightarrow> Inl e
           | Inr entries \<Rightarrow> Inr (component_walk entries dir []))"

text \<open>\<^verbatim>\<open>/^["']use client["'];?\s*$/m\<close>\<close>

definition use_client :: re where
  "use_client =
     cat [Bol, One (AnyOf [dquote, squote]), Lit ''use client'',
          One (AnyOf [dquote, squote]), Opt (Lit '';''), Star Ws, Eol]"

definition extractComponentType :: "string \<Rightarrow> ComponentType" where
  "extractComponentType content = (if test use_client content then Client else Server)"

text \<open>\<^verbatim>\<open>/import\s+(?:(?:\{[^}]*\}|[\w*]+)\s+from\s+)?["']([^"']+)["']/g\<close>\<close>

definition dependency_import :: re where
  "dependency_import =
     cat [Lit ''import'', Plus Ws,
          Opt (cat [Alt (cat [Lit ''{'', Star (NoneOf ''}''), Lit ''}'']) (Plus WdStar),
                    Plus Ws, Lit ''from'', Plus Ws]),
          One (AnyOf [dquote, squote]),
          Cap 1 (Plus (NoneOf [dquote, squote])),
          One (AnyOf [dquote, squote])]"

definition extractDependencies :: "string \<Rightarrow> string list" where
  "extractDependencies content =
     uniq (concat (map (\<lambda>m.
        let importPath = capture m 1
        in if starts_with importPath ''.'' \<or> starts_with importPath ''@/''
           then (let parts = split_on slash importPath;
                     lastPart = last parts
                 in if test starts_upper lastPart then [lastPart] else [])
           else []) (matchAll dependency_import content)))"

definition countLines :: "string \<Rightarrow> nat" where
  "countLines content = length (split_on newline content)"

definition getDirectoryLabel :: "string \<Rightarrow> string" where
  "getDirectoryLabel dirPath =
     (let parts = split_on slash dirPath
      in if last parts = [] then dirPath else last parts)"

text \<open>The body of the loop over the component files: the state is the list of
  components and the directory counters; a file that cannot be read changes nothing.\<close>

definition componentStep ::
  "fsnode \<Rightarrow> string \<Rightarrow> string \<Rightarrow>
   ComponentInfo list \<times> (string \<times> nat) list \<Rightarrow> ComponentInfo list \<times> (string \<times> nat) list" where
  "componentStep root projectPath filePath st =
     (case st of (components, directoryMap) \<Rightarrow>
        (case readFileSync root filePath of
           Inl e \<Rightarrow> (components, directoryMap)
         | Inr content \<Rightarrow>
             let relativePath = path_relative projectPath filePath;
                 dirPath = path_dirname relativePath;
                 name = path_basename filePath (path_extname filePath);
                 type = extractComponentType content;
                 dependencies = extractDependencies content;
                 linesOfCode = countLines content
             in (components @
                   [\<lparr>comp_name = name, comp_path = relativePath, comp_directory = dirPath,
                     comp_type = type, comp_dependencies = dependencies,
                     comp_linesOfCode = linesOfCode\<rparr>],
                 map_set dirPath
                   ((case map_get directoryMap dirPath of None \<Rightarrow> 0 | Some n \<Rightarrow> n) + 1)
                   directoryMap)))"

definition possibleComponentDirs :: "string \<Rightarrow> string list" where
  "possibleComponentDirs projectPath =
     [path_join [projectPath, ''components''],
      path_join [projectPath, ''src'', ''components''],
      path_join [projectPath, ''app''],
      path_join [projectPath, ''src'', ''app'']]"

fun collectComponents ::
  "fsnode \<Rightarrow> string \<Rightarrow> string list \<Rightarrow>
   ComponentInfo list \<times> (string \<times> nat) list \<Rightarrow>
   error + ComponentInfo list \<times> (string \<times> nat) list" where
  "collectComponents root projectPath [] st = Inr st"
| "collectComponents root projectPath (componentDir # dirs) st =
     (case findComponentFiles root componentDir of
        Inl e \<Rightarrow> Inl e
      | Inr componentFiles \<Rightarrow>
          collectComponents root projectPath dirs
            (fold (componentStep root projectPath) componentFiles st))"

definition compareDirectories :: "DirectoryInfo \<Rightarrow> DirectoryInfo \<Rightarrow> int" where
  "compareDirectories a b = int (dir_componentCount b) - int (dir_componentCount a)"

definition compareComponents ::
  "(string \<Rightarrow> string \<Rightarrow> int) \<Rightarrow> ComponentInfo \<Rightarrow> ComponentInfo \<Rightarrow> int" where
  "compareComponents lc a b =
     (let dirCompare = lc (comp_directory a) (comp_directory b)
      in if dirCompare \<noteq> 0 then dirCompare else lc (comp_name a) (comp_name b))"

definition analyzeComponents ::
  "fsnode \<Rightarrow> (string \<Rightarrow> string \<Rightarrow> int) \<Rightarrow> string \<Rightarrow> string \<Rightarrow> error + ComponentData" where
  "analyzeComponents root lc now projectPath =
     (case collectComponents root projectPath (possibleComponentDirs projectPath) ([], []) of
        Inl e \<Rightarrow> Inl e
      | Inr (components, directoryMap) \<Rightarrow>
          Inr \<lparr>cd_components = sort_by (compareComponents lc) components,
               cd_directories =
                 sort_by compareDirectories
                   (map (\<lambda>(dirPath, count).
                           \<lparr>dir_path = dirPath, dir_label = getDirectoryLabel dirPath,
                            dir_componentCount = count\<rparr>) directoryMap),
               cd_generatedAt = now, cd_projectPath = projectPath\<rparr>)"

section \<open>Model analyzer\<close>

record FieldInfo =
  field_name :: string
  field_type :: string
  field_isRelation :: bool
  field_isOptional :: bool
  field_isArray :: bool

record ModelInfo =
  model_name :: string
  model_fields :: "FieldInfo list"

datatype RelationType = OneToOne | OneToMany | ManyToMany

record RelationshipInfo =
  rel_from :: string
  rel_to :: string
  rel_type :: RelationType
  rel_fieldName :: string

record ModelData =
  md_models :: "ModelInfo list"
  md_relationships :: "RelationshipInfo list"
  md_generatedAt :: string
  md_projectPath :: string

definition PRISMA_SCHEMA_PATHS :: "string list" where
  "PRISMA_SCHEMA_PATHS = [''prisma/schema.prisma'', ''schema.prisma'',
                          ''prisma/schema/schema.prisma'']"

definition findPrismaSchema :: "fsnode \<Rightarrow> string \<Rightarrow> string option" where
  "findPrismaSchema root projectPath =
     find (existsSync root) (map (\<lambda>schemaPath. path_join [projectPath, schemaPath])
                                 PRISMA_SCHEMA_PATHS)"

definition parseField :: "string \<Rightarrow> string list \<Rightarrow> FieldInfo option" where
  "parseField line modelNames =
     (let trimmed = trim line
      in if trimmed = [] \<or> starts_with trimmed ''//'' \<or> starts_with trimmed ''@@'' then None
         else
           let parts = split_ws trimmed
           in if length parts < 2 then None
              else
                let name = parts ! 0;
                    type0 = parts ! 1
                in if starts_with name ''@'' then None
                   else
                     let isArray = ends_with type0 ''[]'';
                         type1 = (if isArray then take (length type0 - 2) type0 else type0);
                         isOptional = ends_with type1 ''?'';
                         type2 = (if isOptional then take (length type1 - 1) type1 else type1);
                         isRelation = (type2 \<in> set modelNames)
                     in Some \<lparr>field_name = name, field_type = type2,
                              field_isRelation = isRelation, field_isOptional = isOptional,
                              field_isArray = isArray\<rparr>)"

text \<open>\<^verbatim>\<open>/^model\s+(\w+)\s*\{/gm\<close> and \<^verbatim>\<open>/^model\s+(\w+)\s*\{([^}]+)\}/gm\<close>\<close>

definition modelNameRegex :: re where
  "modelNameRegex = cat [Bol, Lit ''model'', Plus Ws, Cap 1 (Plus Wd), Star Ws, Lit ''{'']"

definition modelRegex :: re where
  "modelRegex =
     cat [Bol, Lit ''model'', Plus Ws, Cap 1 (Plus Wd), Star Ws, Lit ''{'',
          Cap 2 (Plus (NoneOf ''}'')), Lit ''}'']"

definition parseModels :: "string \<Rightarrow> ModelInfo list \<times> string list" where
  "parseModels content =
     (let modelNames = map (\<lambda>m. capture m 1) (matchAll modelNameRegex content);
          models =
            map (\<lambda>m.
                  let modelName = capture m 1;
                      modelBody = capture m 2;
                      lines = split_on newline modelBody
                  in \<lparr>model_name = modelName,
                      model_fields = List.map_filter (\<lambda>line. parseField line modelNames) lines\<rparr>)
                (matchAll modelRegex content)
      in (models, modelNames))"

text \<open>\<^verbatim>\<open>[a, b].sort().join("-")\<close>: the default sort orders strings by their code
  units.\<close>

definition relationKey :: "string \<Rightarrow> string \<Rightarrow> string" where
  "relationKey a b = (if b < a then b @ ''-'' @ a else a @ ''-'' @ b)"

definition relationType :: "ModelInfo list \<Rightarrow> ModelInfo \<Rightarrow> FieldInfo \<Rightarrow> RelationType" where
  "relationType models model field =
     (if field_isArray field then
        (case find (\<lambda>m. model_name m = field_type field) models of
           None \<Rightarrow> OneToMany
         | Some otherModel \<Rightarrow>
             (case find (\<lambda>f. field_type f = model_name model \<and> field_isRelation f)
                        (model_fields otherModel) of
                None \<Rightarrow> OneToMany
              | Some reverseField \<Rightarrow>
                  if field_isArray reverseField then ManyToMany else OneToMany))
      else OneToOne)"

text \<open>The body of the inner loop: the state is the relationships found and the keys
  seen.\<close>

definition relationStep ::
  "ModelInfo list \<Rightarrow> ModelInfo \<Rightarrow> FieldInfo \<Rightarrow>
   RelationshipInfo list \<times> string list \<Rightarrow> RelationshipInfo list \<times> string list" where
  "relationStep models model field st =
     (case st of (relationships, seen) \<Rightarrow>
        if field_isRelation field then
          (let key = relationKey (model_name model) (field_type field)
           in if key \<in> set seen then (relationships, seen)
              else (relationships @
                      [\<lparr>rel_from = model_name model, rel_to = field_type field,
                        rel_type = relationType models model field,
                        rel_fieldName = field_name field\<rparr>],
                    seen @ [key]))
        else (relationships, seen))"

definition extractRelationships :: "ModelInfo list \<Rightarrow> RelationshipInfo list" where
  "extractRelationships models =
     fst (fold (\<lambda>model st. fold (relationStep models model) (model_fields model) st)
               models ([], []))"

definition analyzeModels :: "fsnode \<Rightarrow> string \<Rightarrow> string \<Rightarrow> ModelData option" where
  "analyzeModels root now projectPath =
     (case findPrismaSchema root projectPath of
        None \<Rightarrow> None
      | Some schemaPath \<Rightarrow>
          (case readFileSync root schemaPath of
             Inl e \<Rightarrow> None
           | Inr content \<Rightarrow>
               let models = fst (parseModels content);
                   relationships = extractRelationships models
               in Some \<lparr>md_models = models, md_relationships = relationships,
                        md_generatedAt = now, md_projectPath = projectPath\<rparr>))"

section \<open>Dependency analyzer\<close>

datatype NodeType = Component | Lib | Api | Page | Other

record NodeInfo =
  node_id :: string
  node_label :: string
  node_directory :: string
  node_type :: NodeType

record EdgeInfo =
  edge_source :: string
  edge_target :: string

record ClusterInfo =
  cluster_id :: string
  cluster_label :: string
  cluster_nodeIds :: "string list"

record DependencyData =
  dd_nodes :: "NodeInfo list"
  dd_edges :: "EdgeInfo list"
  dd_clusters :: "ClusterInfo list"
  dd_generatedAt :: string
  dd_projectPath :: string

definition SOURCE_EXTENSIONS :: "string list" where
  "SOURCE_EXTENSIONS = [''.ts'', ''.tsx'', ''.js'', ''.jsx'']"

definition MAX_FILES :: nat where
  "MAX_FILES = 500"

text \<open>The loop over the entries of a directory that exists, with the files found so
  far; the call for a subdirectory returns at once when the limit is reached.\<close>

fun source_walk ::
  "(string \<times> fsnode) list \<Rightarrow> string \<Rightarrow> string list \<Rightarrow> nat \<Rightarrow> string list" where
  "source_walk [] dir files limit = files"
| "source_walk ((name, Dir sub) # es) dir files limit =
     (if length files \<ge> limit then files
      else if name \<in> set IGNORED_DIRS then source_walk es dir files limit
      else source_walk es dir
             (let files' = files in
              if length files' \<ge> limit then files'
              else source_walk sub (path_join [dir, name]) files' limit) limit)"
| "source_walk ((name, File c) # es) dir files limit =
     (if length files \<ge> limit then files
      else if name \<in> set IGNORED_DIRS then source_walk es dir files limit
      else if path_extname name \<in> set SOURCE_EXTENSIONS
      then source_walk es dir (files @ [path_join [dir, name]]) limit
      else source_walk es dir files limit)"

definition findSourceFiles :: "fsnode \<Rightarrow> string \<Rightarrow> error + string list" where
  "findSourceFiles root dir =
     (if \<not> existsSync root dir \<or> (0::nat) \<ge> MAX_FILES then Inr []
      else case readdirSync root dir of
             Inl e \<Rightarrow> Inl e
           | Inr entries \<Rightarrow> Inr (source_walk entries dir [] MAX_FILES))"

definition getNodeType :: "string \<Rightarrow> NodeType" where
  "getNodeType filePath =
     (if str_includes filePath ''/components/'' \<or>
         str_includes filePath [CHR 0x5C, CHR ''c'', CHR ''o'', CHR ''m'', CHR ''p'', CHR ''o'',
                                CHR ''n'', CHR ''e'', CHR ''n'', CHR ''t'', CHR ''s'', CHR 0x5C]
      then Component
      else if str_includes filePath ''/lib/'' \<or>
              str_includes filePath [CHR 0x5C, CHR ''l'', CHR ''i'', CHR ''b'', CHR 0x5C] \<or>
              str_includes filePath ''/utils/'' \<or>
              str_includes filePath [CHR 0x5C, CHR ''u'', CHR ''t'', CHR ''i'', CHR ''l'',
                                     CHR ''s'', CHR 0x5C]
      then Lib
      else if str_includes filePath ''/api/'' \<or>
              str_includes filePath [CHR 0x5C, CHR ''a'', CHR ''p'', CHR ''i'', CHR 0x5C]
      then Api
      else if str_includes filePath ''/app/'' \<or>
              str_includes filePath [CHR 0x5C, CHR ''a'', CHR ''p'', CHR ''p'', CHR 0x5C] \<or>
              str_includes filePath ''/pages/'' \<or>
              str_includes filePath [CHR 0x5C, CHR ''p'', CHR ''a'', CHR ''g'', CHR ''e'',
                                     CHR ''s'', CHR 0x5C]
      then Page
      else Other)"

text \<open>\<^verbatim>\<open>/import\s+(?:(?:\{[^}]*\}|[\w*]+(?:\s*,\s*\{[^}]*\})?)\s+from\s+)?["']([^"']+)["']/g\<close>\<close>

definition importRegex :: re where
  "importRegex =
     cat [Lit ''import'', Plus Ws,
          Opt (cat [Alt (cat [Lit ''{'', Star (NoneOf ''}''), Lit ''}''])
                        (cat [Plus WdStar,
                              Opt (cat [Star Ws, Lit '','', Star Ws, Lit ''{'',
                                        Star (NoneOf ''}''), Lit ''}''])]),
                    Plus Ws, Lit ''from'', Plus Ws]),
          One (AnyOf [dquote, squote]),
          Cap 1 (Plus (NoneOf [dquote, squote])),
          One (AnyOf [dquote, squote])]"

definition extractImports :: "string \<Rightarrow> string list" where
  "extractImports content =
     filter (\<lambda>importPath. starts_with importPath ''.'' \<or> starts_with importPath ''@/'')
            (map (\<lambda>m. capture m 1) (matchAll importRegex content))"

definition resolveExtensions :: "string list" where
  "resolveExtensions = ['''', ''.ts'', ''.tsx'', ''.js'', ''.jsx'', ''/index.ts'',
                        ''/index.tsx'', ''/index.js'', ''/index.jsx'']"

definition resolveImportPath :: "fsnode \<Rightarrow> string \<Rightarrow> string \<Rightarrow> string \<Rightarrow> string option" where
  "resolveImportPath root importPath fromFile projectPath =
     (let resolved =
            (if starts_with importPath ''@/'' then path_join [projectPath, drop 2 importPath]
             else path_resolve [path_dirname fromFile, importPath])
      in find (\<lambda>withExt. existsSync root withExt \<and> statIsFile root withExt)
              (map (\<lambda>ext. resolved @ ext) resolveExtensions))"

definition getClusterLabel :: "string \<Rightarrow> string" where
  "getClusterLabel dirPath =
     (let parts = filter (\<lambda>p. p \<noteq> []) (split_on slash dirPath);
          kept = filter (\<lambda>p. p \<notin> set [''src'', ''app'']) parts;
          meaningful = drop (length kept - 2) kept;
          label = join_with ''/'' meaningful
      in if label = [] then ''root'' else label)"

text \<open>\<^verbatim>\<open>relativePath.replace(/[\/\\]/g, "_").replace(/\.[^.]+$/, "")\<close>\<close>

definition extension_suffix :: re where
  "extension_suffix = cat [Lit ''.'', Plus (NoneOf ''.''), End]"

definition nodeIdOf :: "string \<Rightarrow> string" where
  "nodeIdOf relativePath = remove_first extension_suffix (replace_separators relativePath)"

text \<open>The first loop over the source files: the state is the nodes, the node map and
  the cluster map.\<close>

definition nodeStep ::
  "string \<Rightarrow> string \<Rightarrow>
   NodeInfo list \<times> (string \<times> string) list \<times> (string \<times> string list) list \<Rightarrow>
   NodeInfo list \<times> (string \<times> string) list \<times> (string \<times> string list) list" where
  "nodeStep projectPath filePath st =
     (case st of (nodes, nodeMap, clusterMap) \<Rightarrow>
        let relativePath = path_relative projectPath filePath;
            nodeId = nodeIdOf relativePath;
            dirPath = path_dirname relativePath;
            label = path_basename filePath (path_extname filePath);
            type = getNodeType relativePath;
            clusterKey = getClusterLabel dirPath;
            clusterMap' = (if map_get clusterMap clusterKey = None
                           then map_set clusterKey [] clusterMap else clusterMap)
        in (nodes @ [\<lparr>node_id = nodeId, node_label = label, node_directory = dirPath,
                       node_type = type\<rparr>],
            map_set filePath nodeId nodeMap,
            map_set clusterKey
              (set_add nodeId (case map_get clusterMap' clusterKey of None \<Rightarrow> [] | Some ids \<Rightarrow> ids))
              clusterMap'))"

text \<open>The second loop: the edges of one source file, none when it cannot be read or
  its own id is missing or empty.\<close>

definition fileEdges ::
  "fsnode \<Rightarrow> string \<Rightarrow> (string \<times> string) list \<Rightarrow> string \<Rightarrow> EdgeInfo list" where
  "fileEdges root projectPath nodeMap filePath =
     (case readFileSync root filePath of
        Inl e \<Rightarrow> []
      | Inr content \<Rightarrow>
          let imports = extractImports content
          in case map_get nodeMap filePath of
               None \<Rightarrow> []
             | Some sourceId \<Rightarrow>
                 if sourceId = [] then []
                 else concat (map (\<lambda>importPath.
                        case resolveImportPath root importPath filePath projectPath of
                          None \<Rightarrow> []
                        | Some resolvedPath \<Rightarrow>
                            (case map_get nodeMap resolvedPath of
                               None \<Rightarrow> []
                             | Some targetId \<Rightarrow>
                                 if targetId \<noteq> [] \<and> targetId \<noteq> sourceId
                                 then [\<lparr>edge_source = sourceId, edge_target = targetId\<rparr>]
                                 else [])) imports))"

definition edgeKey :: "EdgeInfo \<Rightarrow> string" where
  "edgeKey e = edge_source e @ ''->'' @ edge_target e"

text \<open>\<^verbatim>\<open>Array.from(new Map(edges.map((e) => [key, e])).values())\<close>\<close>

definition uniqueEdges :: "EdgeInfo list \<Rightarrow> EdgeInfo list" where
  "uniqueEdges edges = map snd (fold (\<lambda>e m. map_set (edgeKey e) e m) edges [])"

definition compareClusters :: "ClusterInfo \<Rightarrow> ClusterInfo \<Rightarrow> int" where
  "compareClusters a b = int (length (cluster_nodeIds b)) - int (length (cluster_nodeIds a))"

definition analyzeDependencies :: "fsnode \<Rightarrow> string \<Rightarrow> string \<Rightarrow> error + DependencyData" where
  "analyzeDependencies root now projectPath =
     (case findSourceFiles root projectPath of
        Inl e \<Rightarrow> Inl e
      | Inr sourceFiles \<Rightarrow>
          (case fold (nodeStep projectPath) sourceFiles ([], [], []) of
             (nodes, nodeMap, clusterMap) \<Rightarrow>
               let edges = concat (map (fileEdges root projectPath nodeMap) sourceFiles);
                   clusters =
                     sort_by compareClusters
                       (map (\<lambda>(label, nodeIds).
                               \<lparr>cluster_id = replace_separators label, cluster_label = label,
                                cluster_nodeIds = nodeIds\<rparr>)
                            (filter (\<lambda>(label, nodeIds). length nodeIds > 1) clusterMap))
               in Inr \<lparr>dd_nodes = nodes, dd_edges = uniqueEdges edges,
                       dd_clusters = clusters, dd_generatedAt = now,
                       dd_projectPath = projectPath\<rparr>))"

section \<open>Main analyzer\<close>

record AnalysisResult =
  ar_routes :: "RouteData option"
  ar_components :: "ComponentData option"
  ar_models :: "ModelData option"
  ar_dependencies :: "DependencyData option"
  ar_projectPath :: string
  ar_projectName :: string
  ar_generatedAt :: string

text \<open>
  \<open>jsonName\<close> stands for \<^verbatim>\<open>JSON.parse(text).name\<close>: the name, or \<open>None\<close> when parsing
  throws or the name is missing or empty. \<open>clock\<close> gives the time each of the five
  results is stamped with. The four passes have no \<^verbatim>\<open>await\<close> inside: each runs to
  its end when it is called, and \<^verbatim>\<open>Promise.all\<close> rejects with the error of the first
  of them that threw.
\<close>

definition analyzeCodebase ::
  "fsnode \<Rightarrow> (string \<Rightarrow> string \<Rightarrow> int) \<Rightarrow> (string \<Rightarrow> string option) \<Rightarrow> (nat \<Rightarrow> string) \<Rightarrow>
   string \<Rightarrow> error + AnalysisResult" where
  "analyzeCodebase root lc jsonName clock projectPath =
     (let packageJsonPath = path_join [projectPath, ''package.json''];
          projectName =
            (if existsSync root packageJsonPath then
               (case readFileSync root packageJsonPath of
                  Inl e \<Rightarrow> path_basename projectPath []
                | Inr text \<Rightarrow>
                    (case jsonName text of
                       None \<Rightarrow> path_basename projectPath []
                     | Some name \<Rightarrow> name))
             else path_basename projectPath []);
          routes = analyzeRoutes root lc (clock 0) projectPath;
          components = analyzeComponents root lc (clock 1) projectPath;
          models = analyzeModels root (clock 2) projectPath;
          dependencies = analyzeDependencies root (clock 3) projectPath
      in case routes of
           Inl e \<Rightarrow> Inl e
         | Inr routes \<Rightarrow>
             (case components of
                Inl e \<Rightarrow> Inl e
              | Inr components \<Rightarrow>
                  (case dependencies of
                     Inl e \<Rightarrow> Inl e
                   | Inr dependencies \<Rightarrow>
                       Inr \<lparr>ar_routes = (if length (rd_routes routes) > 0 then Some routes else None),
                            ar_components =
                              (if length (cd_components components) > 0 then Some components
                               else None),
                            ar_models = models,
                            ar_dependencies =
                              (if length (dd_nodes dependencies) > 0 then Some dependencies
                               else None),
                            ar_projectPath = projectPath,
                            ar_projectName = projectName,
                            ar_generatedAt = clock 4\<rparr>)))"

section \<open>Sample inputs\<close>

text \<open>A comparison function that orders strings by their code units; the examples use
  it for \<open>lc\<close>.\<close>

definition codeUnitCompare :: "string \<Rightarrow> string \<Rightarrow> int" where
  "codeUnitCompare a b = (if a = b then 0 else if a < b then -1 else 1)"

text \<open>A project with three components in two directories.\<close>

definition demo_components :: fsnode where
  "demo_components = Dir [(''proj'', Dir [
     (''components'', Dir [(''Button.tsx'', File (Some ''a\<newline>b'')),
                           (''Card.tsx'', File (Some ''''))]),
     (''app'', Dir [(''Page.tsx'', File (Some ''x''))])])]"

definition demo_components_result :: ComponentData where
  "demo_components_result =
     \<lparr>cd_components =
        [\<lparr>comp_name = ''Page'', comp_path = ''app/Page.tsx'', comp_directory = ''app'',
           comp_type = Server, comp_dependencies = [], comp_linesOfCode = 1\<rparr>,
         \<lparr>comp_name = ''Button'', comp_path = ''components/Button.tsx'',
           comp_directory = ''components'', comp_type = Server, comp_dependencies = [],
           comp_linesOfCode = 2\<rparr>,
         \<lparr>comp_name = ''Card'', comp_path = ''components/Card.tsx'',
           comp_directory = ''components'', comp_type = Server, comp_dependencies = [],
           comp_linesOfCode = 1\<rparr>],
      cd_directories =
        [\<lparr>dir_path = ''components'', dir_label = ''components'', dir_componentCount = 2\<rparr>,
         \<lparr>dir_path = ''app'', dir_label = ''app'', dir_componentCount = 1\<rparr>],
      cd_generatedAt = ''t'', cd_projectPath = ''/proj''\<rparr>"

text \<open>
  What \<^verbatim>\<open>Array.prototype.sort\<close> asks of a comparison function, and the order that
  the comparison of two routes decides: by path, ties by method.
\<close>

definition consistentComparator :: "('a \<Rightarrow> 'a \<Rightarrow> int) \<Rightarrow> bool" where
  "consistentComparator cmp =
     ((\<forall>a b. sgn (cmp a b) = - sgn (cmp b a)) \<and>
      (\<forall>a b c. cmp a b \<le> 0 \<and> cmp b c \<le> 0 \<longrightarrow> cmp a c \<le> 0))"

definition routeLe :: "(string \<Rightarrow> string \<Rightarrow> int) \<Rightarrow> RouteInfo \<Rightarrow> RouteInfo \<Rightarrow> bool" where
  "routeLe lc a b =
     (lc (route_path a) (route_path b) < 0 \<or>
      (lc (route_path a) (route_path b) = 0 \<and>
       lc (method_name (route_method a)) (method_name (route_method b)) \<le> 0))"

text \<open>The order of two routes by the code units of their strings: the lexicographic
  order of the paths, ties broken by the lexicographic order of the methods.\<close>

definition lexicographicRouteLe :: "RouteInfo \<Rightarrow> RouteInfo \<Rightarrow> bool" where
  "lexicographicRouteLe a b =
     (route_path a < route_path b \<or>
      (route_path a = route_path b \<and>
       method_name (route_method a) \<le> method_name (route_method b)))"

text \<open>The route files that the pass finds in the API directories, in the order of
  the loop.\<close>

definition routeFilesIn :: "fsnode \<Rightarrow> string \<Rightarrow> string list" where
  "routeFilesIn root dir = (case findApiRoutes root dir of Inl e \<Rightarrow> [] | Inr files \<Rightarrow> files)"

definition discoveredRouteFiles :: "fsnode \<Rightarrow> string \<Rightarrow> string list" where
  "discoveredRouteFiles root projectPath =
     concat (map (routeFilesIn root) (possibleApiDirs projectPath))"

text \<open>A project with two route files.\<close>

definition demo_routes :: fsnode where
  "demo_routes = Dir [(''proj'', Dir [
     (''app'', Dir [(''api'', Dir [
        (''users'', Dir [(''route.ts'',
           File (Some ''export async function GET(req) {}\<newline>export const POST = handler;''))]),
        (''admin'', Dir [(''route.ts'', File (Some ''export function DELETE () {}''))])])])])]"

definition demo_routes_result :: RouteData where
  "demo_routes_result =
     \<lparr>rd_routes =
        [\<lparr>route_path = ''/api/admin'', route_method = DELETE, route_feature = ''admin'',
           route_auth = Public, route_file = ''app/api/admin/route.ts''\<rparr>,
         \<lparr>route_path = ''/api/users'', route_method = GET, route_feature = ''users'',
           route_auth = Public, route_file = ''app/api/users/route.ts''\<rparr>,
         \<lparr>route_path = ''/api/users'', route_method = POST, route_feature = ''users'',
           route_auth = Public, route_file = ''app/api/users/route.ts''\<rparr>],
      rd_generatedAt = ''t'', rd_projectPath = ''/proj''\<rparr>"

text \<open>A project with two route files whose paths differ in case.\<close>

definition demo_case_routes :: fsnode where
  "demo_case_routes = Dir [(''proj'', Dir [
     (''app'', Dir [(''api'', Dir [
        (''Zed'', Dir [(''route.ts'', File (Some ''export function GET() {}''))]),
        (''alpha'', Dir [(''route.ts'', File (Some ''export function GET() {}''))])])])])]"

definition demo_case_routes_result :: RouteData where
  "demo_case_routes_result =
     \<lparr>rd_routes =
        [\<lparr>route_path = ''/api/alpha'', route_method = GET, route_feature = ''alpha'',
           route_auth = Public, route_file = ''app/api/alpha/route.ts''\<rparr>,
         \<lparr>route_path = ''/api/Zed'', route_method = GET, route_feature = ''Zed'',
           route_auth = Public, route_file = ''app/api/Zed/route.ts''\<rparr>],
      rd_generatedAt = ''t'', rd_projectPath = ''/proj''\<rparr>"

text \<open>A project directory that holds one regular file, named \<^verbatim>\<open>app\<close>: no API directory,
  no component directory, no schema file.\<close>

definition demo_plain_file_app :: fsnode where
  "demo_plain_file_app = Dir [(''proj'', Dir [(''app'', File (Some ''#!/bin/sh''))])]"

text \<open>A project directory with one source file and nothing else of interest.\<close>

definition demo_empty_project :: fsnode where
  "demo_empty_project = Dir [(''proj'', Dir [(''README.md'', File (Some ''hello'')),
                                              (''main.ts'', File (Some ''''))])]"

text \<open>A schema with the entities \<^verbatim>\<open>User\<close> and \<^verbatim>\<open>Post\<close>, related in both directions.\<close>

definition demo_schema :: string where
  "demo_schema =
     ''model User {\<newline>  id String\<newline>  posts Post[]\<newline>}\<newline>\<newline>model Post {\<newline>  id String\<newline>  author User\<newline>}\<newline>''"

text \<open>Two source files whose paths differ and whose node ids are the same; the second
  imports the first.\<close>

definition demo_collision :: fsnode where
  "demo_collision = Dir [(''proj'', Dir [
     (''lib'', Dir [(''utils.ts'', File (Some ''export const x = 1;''))]),
     (''lib_utils.ts'',
        File (Some (''import { x } from '' @ [dquote] @ ''./lib/utils'' @ [dquote] @ '';'')))])]"

definition demo_collision_import :: string where
  "demo_collision_import = ''import { x } from '' @ [dquote] @ ''./lib/utils'' @ [dquote] @ '';''"

definition demo_collision_result :: DependencyData where
  "demo_collision_result =
     \<lparr>dd_nodes =
        [\<lparr>node_id = ''lib_utils'', node_label = ''utils'', node_directory = ''lib'',
           node_type = Other\<rparr>,
         \<lparr>node_id = ''lib_utils'', node_label = ''lib_utils'', node_directory = ''.'',
           node_type = Other\<rparr>],
      dd_edges = [], dd_clusters = [], dd_generatedAt = ''t'', dd_projectPath = ''/proj''\<rparr>"

text \<open>A source file with an alias-rooted import, an import of a directory with an index
  file and a second import of the same file.\<close>

definition demo_imports :: fsnode where
  "demo_imports = Dir [(''proj'', Dir [
     (''lib'', Dir [
        (''foo.ts'', File (Some (''import { bar } from '' @ [dquote] @ ''@/lib/bar'' @ [dquote] @
                                 '';\<newline>import './baz';\<newline>import { bar as b } from './bar';''))),
        (''bar.ts'', File (Some ''export const bar = 1;'')),
        (''baz'', Dir [(''index.ts'', File (Some ''''))])])])]"

definition demo_imports_result :: DependencyData where
  "demo_imports_result =
     \<lparr>dd_nodes =
        [\<lparr>node_id = ''lib_foo'', node_label = ''foo'', node_directory = ''lib'', node_type = Other\<rparr>,
         \<lparr>node_id = ''lib_bar'', node_label = ''bar'', node_directory = ''lib'', node_type = Other\<rparr>,
         \<lparr>node_id = ''lib_baz_index'', node_label = ''index'', node_directory = ''lib/baz'',
           node_type = Other\<rparr>],
      dd_edges =
        [\<lparr>edge_source = ''lib_foo'', edge_target = ''lib_bar''\<rparr>,
         \<lparr>edge_source = ''lib_foo'', edge_target = ''lib_baz_index''\<rparr>],
      dd_clusters =
        [\<lparr>cluster_id = ''lib'', cluster_label = ''lib'', cluster_nodeIds = [''lib_foo'', ''lib_bar'']\<rparr>],
      dd_generatedAt = ''t'', dd_projectPath = ''/proj''\<rparr>"

text \<open>The models that the schema above parses to.\<close>

definition demo_models :: "ModelInfo list" where
  "demo_models =
     [\<lparr>model_name = ''User'', model_fields =
         [\<lparr>field_name = ''id'', field_type = ''String'', field_isRelation = False,
            field_isOptional = False, field_isArray = False\<rparr>,
          \<lparr>field_name = ''posts'', field_type = ''Post'', field_isRelation = True,
            field_isOptional = False, field_isArray = True\<rparr>]\<rparr>,
      \<lparr>model_name = ''Post'', model_fields =
         [\<lparr>field_name = ''id'', field_type = ''String'', field_isRelation = False,
            field_isOptional = False, field_isArray = False\<rparr>,
          \<lparr>field_name = ''author'', field_type = ''User'', field_isRelation = True,
            field_isOptional = False, field_isArray = False\<rparr>]\<rparr>]"

section \<open>Notions the properties are stated with\<close>

text \<open>The node map after the first loop over the source files, and what it is for the
  content of a file to hold an import that resolves to a path.\<close>

definition nodeMapOf :: "string \<Rightarrow> string list \<Rightarrow> (string \<times> string) list" where
  "nodeMapOf projectPath files = fst (snd (fold (nodeStep projectPath) files ([], [], [])))"

definition importsFile ::
  "fsnode \<Rightarrow> string \<Rightarrow> string \<Rightarrow> string \<Rightarrow> bool" where
  "importsFile root projectPath x y =
     (\<exists>content importPath.
        readFileSync root x = Inr content \<and>
        importPath \<in> set (extractImports content) \<and>
        resolveImportPath root importPath x projectPath = Some y)"

text \<open>The invariant of the map that removes duplicate edges.\<close>

definition edgeMapInv :: "EdgeInfo set \<Rightarrow> (string \<times> EdgeInfo) list \<Rightarrow> bool" where
  "edgeMapInv E m =
     (distinct (map fst m) \<and> (\<forall>p \<in> set m. fst p = edgeKey (snd p) \<and> snd p \<in> E) \<and>
      fst ` set m = edgeKey ` E)"

text \<open>Names made of word characters; a matcher state whose capture group \<open>g\<close> is such a
  name; a regular expression whose capture group \<open>g\<close> is \<^verbatim>\<open>(\w+)\<close> wherever it stands.\<close>

definition wordName :: "string \<Rightarrow> bool" where
  "wordName s = list_all is_word s"

definition capsWord :: "nat \<Rightarrow> mstate \<Rightarrow> bool" where
  "capsWord g st = (case map_of (caps st) g of None \<Rightarrow> True | Some w \<Rightarrow> wordName w)"

fun capWord :: "nat \<Rightarrow> re \<Rightarrow> bool" where
  "capWord g (Cap n a) = (if n = g then a = Plus Wd else capWord g a)"
| "capWord g (Seq a b) = (capWord g a \<and> capWord g b)"
| "capWord g (Alt a b) = (capWord g a \<and> capWord g b)"
| "capWord g (Opt a) = capWord g a"
| "capWord g r = True"

text \<open>The relation fields of a schema in the order in which the extraction visits them,
  the key and the record of one of them, and the first element of a list for each
  key that is not yet seen.\<close>

definition relationOccurrences :: "ModelInfo list \<Rightarrow> (ModelInfo \<times> FieldInfo) list" where
  "relationOccurrences models =
     concat (map (\<lambda>m. map (Pair m) (filter field_isRelation (model_fields m))) models)"

definition occurrenceKey :: "ModelInfo \<times> FieldInfo \<Rightarrow> string" where
  "occurrenceKey occ = relationKey (model_name (fst occ)) (field_type (snd occ))"

definition relationRecord :: "ModelInfo list \<Rightarrow> ModelInfo \<times> FieldInfo \<Rightarrow> RelationshipInfo" where
  "relationRecord models occ =
     \<lparr>rel_from = model_name (fst occ), rel_to = field_type (snd occ),
      rel_type = relationType models (fst occ) (snd occ), rel_fieldName = field_name (snd occ)\<rparr>"

fun firstsBy :: "('a \<Rightarrow> 'k) \<Rightarrow> 'k list \<Rightarrow> 'a list \<Rightarrow> 'a list" where
  "firstsBy key seen [] = []"
| "firstsBy key seen (x # xs) =
     (if key x \<in> set seen then firstsBy key seen xs
      else x # firstsBy key (seen @ [key x]) xs)"

text \<open>The number of components of a directory, and the invariants of the loop over the
  component files that the proofs use.\<close>

definition dirCount :: "string \<Rightarrow> ComponentInfo list \<Rightarrow> nat" where
  "dirCount d cs = length (filter (\<lambda>c. comp_directory c = d) cs)"

definition dirInv :: "ComponentInfo list \<times> (string \<times> nat) list \<Rightarrow> bool" where
  "dirInv st = (case st of (cs, dm) \<Rightarrow>
     distinct (map fst dm) \<and>
     (\<forall>d. map_of dm d = (if dirCount d cs = 0 then None else Some (dirCount d cs))))"

definition linesInv :: "fsnode \<Rightarrow> string \<Rightarrow> ComponentInfo list \<times> (string \<times> nat) list \<Rightarrow> bool" where
  "linesInv root projectPath st =
     (\<forall>c \<in> set (fst st). \<exists>filePath content.
         readFileSync root filePath = Inr content \<and>
         comp_path c = path_relative projectPath filePath \<and>
         comp_linesOfCode c = count_list content newline + 1)"

section \<open>Properties\<close>

subsection \<open>Splitting\<close>

lemma length_split_acc: "length (split_acc c acc s) = Suc (count_list s c)"
  by (induction s arbitrary: acc) simp_all

lemma length_split_on: "length (split_on c s) = Suc (count_list s c)"
  by (simp add: split_on_def length_split_acc)

lemma countLines_eq: "countLines content = count_list content newline + 1"
  by (simp add: countLines_def length_split_on)

subsection \<open>Sorting keeps the elements\<close>

lemma mset_insert_by: "mset (insert_by cmp x ys) = add_mset x (mset ys)"
  by (induction ys) simp_all

lemma mset_sort_by: "mset (sort_by cmp xs) = mset xs"
  unfolding sort_by_def by (induction xs) (simp_all add: mset_insert_by)

lemma set_sort_by: "set (sort_by cmp xs) = set xs"
  using mset_sort_by [of cmp xs] by (metis set_mset_mset)

lemma length_filter_sort_by: "length (filter P (sort_by cmp xs)) = length (filter P xs)"
proof -
  have "size (filter_mset P (mset (sort_by cmp xs))) = size (filter_mset P (mset xs))"
    by (simp add: mset_sort_by)
  then show ?thesis by (simp only: mset_filter [symmetric] size_mset)
qed

subsection \<open>Insertion-ordered maps\<close>

lemma map_of_map_set: "map_of (map_set k v m) = (map_of m)(k \<mapsto> v)"
  by (induction m) (auto simp: fun_eq_iff)

lemma fst_set_map_set: "fst ` set (map_set k v m) = insert k (fst ` set m)"
  by (simp only: dom_map_of_conv_image_fst [symmetric] map_of_map_set dom_fun_upd) simp

lemma distinct_map_set: "distinct (map fst m) \<Longrightarrow> distinct (map fst (map_set k v m))"
  by (induction m) (auto simp: fst_set_map_set)

lemma length_filter_fst_distinct:
  "distinct (map fst m) \<Longrightarrow> map_of m k = Some v \<Longrightarrow> length (filter (\<lambda>p. fst p = k) m) = 1"
proof (induction m)
  case Nil
  then show ?case by simp
next
  case (Cons p m)
  obtain a b where p: "p = (a, b)" by (cases p)
  show ?case
  proof (cases "a = k")
    case True
    with Cons.prems p have "k \<notin> fst ` set m" by auto
    then have "filter (\<lambda>p. fst p = k) m = []" by (auto simp: filter_empty_conv)
    with True p show ?thesis by simp
  next
    case False
    with Cons p show ?thesis by simp
  qed
qed

subsection \<open>The component analyzer\<close>

lemma demo_components_run:
  "analyzeComponents demo_components codeUnitCompare ''t'' ''/proj'' = Inr demo_components_result"
  by code_simp

lemma dirInv_step: "dirInv st \<Longrightarrow> dirInv (componentStep root pp f st)"
  by (cases st)
     (auto simp: dirInv_def componentStep_def Let_def map_get_def map_of_map_set
        distinct_map_set dirCount_def split: sum.splits)

lemma dirInv_fold: "dirInv st \<Longrightarrow> dirInv (fold (componentStep root pp) fs st)"
  by (induction fs arbitrary: st) (simp_all add: dirInv_step)

lemma dirInv_collect:
  "dirInv st \<Longrightarrow> collectComponents root pp dirs st = Inr st' \<Longrightarrow> dirInv st'"
proof (induction dirs arbitrary: st)
  case Nil
  then show ?case by simp
next
  case (Cons d dirs)
  from Cons.prems(2) obtain files where
    "collectComponents root pp dirs (fold (componentStep root pp) files st) = Inr st'"
    by (auto split: sum.splits)
  with Cons.IH [OF dirInv_fold [OF Cons.prems(1)]] show ?case .
qed

lemma linesInv_step: "linesInv root pp st \<Longrightarrow> linesInv root pp (componentStep root pp f st)"
proof (cases st)
  case (Pair cs dm)
  assume inv: "linesInv root pp st"
  show ?thesis
  proof (cases "readFileSync root f")
    case (Inl e)
    with inv Pair show ?thesis by (simp add: componentStep_def)
  next
    case (Inr content)
    with inv Pair show ?thesis
      unfolding linesInv_def componentStep_def Let_def
      by (auto simp: countLines_eq)
  qed
qed

lemma linesInv_fold:
  "linesInv root pp st \<Longrightarrow> linesInv root pp (fold (componentStep root pp) fs st)"
  by (induction fs arbitrary: st) (simp_all add: linesInv_step)

lemma linesInv_collect:
  "linesInv root pp st \<Longrightarrow> collectComponents root pp dirs st = Inr st' \<Longrightarrow> linesInv root pp st'"
proof (induction dirs arbitrary: st)
  case Nil
  then show ?case by simp
next
  case (Cons d dirs)
  from Cons.prems(2) obtain files where
    "collectComponents root pp dirs (fold (componentStep root pp) files st) = Inr st'"
    by (auto split: sum.splits)
  with Cons.IH [OF linesInv_fold [OF Cons.prems(1)]] show ?case .
qed

text \<open>
  C7, as stated: the line count of every component record is the number of newline
  characters of the file's content. In the sample project \<^verbatim>\<open>components/Card.tsx\<close> is
  empty: no newline character, and a line count of one.
\<close>

theorem lineCount_is_not_newline_count:
  "analyzeComponents demo_components codeUnitCompare ''t'' ''/proj'' = Inr demo_components_result \<and>
   cd_components demo_components_result ! 2 =
     \<lparr>comp_name = ''Card'', comp_path = ''components/Card.tsx'',
      comp_directory = ''components'', comp_type = Server, comp_dependencies = [],
      comp_linesOfCode = 1\<rparr> \<and>
   readFileSync demo_components ''/proj/components/Card.tsx'' = Inr [] \<and>
   comp_linesOfCode (cd_components demo_components_result ! 2) \<noteq> count_list [] newline"
  by code_simp

text \<open>
  C7, amended: every component record comes from a file that was read, and its line count
  is one more than the number of newline characters of that file's content.
\<close>

theorem lineCount_newlines_plus_one:
  assumes "analyzeComponents root lc now projectPath = Inr res"
    and "c \<in> set (cd_components res)"
  shows "\<exists>filePath content.
           readFileSync root filePath = Inr content \<and>
           comp_path c = path_relative projectPath filePath \<and>
           comp_linesOfCode c = count_list content newline + 1"
proof -
  from assms(1) obtain cs dm where
    coll: "collectComponents root projectPath (possibleComponentDirs projectPath) ([], []) = Inr (cs, dm)"
    and comps: "cd_components res = sort_by (compareComponents lc) cs"
    by (auto simp: analyzeComponents_def split: sum.splits prod.splits)
  have "linesInv root projectPath ([], [])" by (simp add: linesInv_def)
  from linesInv_collect [OF this coll] have "linesInv root projectPath (cs, dm)" .
  moreover from assms(2) have "c \<in> set cs" by (simp add: comps set_sort_by)
  ultimately show ?thesis unfolding linesInv_def by auto
qed

theorem lineCount_newlines_plus_one_witness:
  "analyzeComponents demo_components codeUnitCompare ''t'' ''/proj'' = Inr demo_components_result \<and>
   cd_components demo_components_result ! 1 \<in> set (cd_components demo_components_result) \<and>
   (\<exists>filePath content.
      readFileSync demo_components filePath = Inr content \<and>
      comp_path (cd_components demo_components_result ! 1) = path_relative ''/proj'' filePath \<and>
      comp_linesOfCode (cd_components demo_components_result ! 1) = count_list content newline + 1)"
proof -
  have mem: "cd_components demo_components_result ! 1 \<in> set (cd_components demo_components_result)"
    by (simp add: demo_components_result_def)
  from lineCount_newlines_plus_one [OF demo_components_run mem] demo_components_run mem
  show ?thesis by blast
qed

text \<open>
  C10: in the result of the component analysis, the count of every directory record is
  the number of components whose directory is that record's path, and the directory of
  every component is the path of exactly one directory record.
\<close>

theorem directories_consistent_with_components:
  assumes "analyzeComponents root lc now projectPath = Inr res"
  shows "(\<forall>d \<in> set (cd_directories res).
            dir_componentCount d =
              length (filter (\<lambda>c. comp_directory c = dir_path d) (cd_components res))) \<and>
         (\<forall>c \<in> set (cd_components res).
            length (filter (\<lambda>d. dir_path d = comp_directory c) (cd_directories res)) = 1)"
proof -
  from assms obtain cs dm where
    coll: "collectComponents root projectPath (possibleComponentDirs projectPath) ([], []) = Inr (cs, dm)"
    and comps: "cd_components res = sort_by (compareComponents lc) cs"
    and dirs: "cd_directories res = sort_by compareDirectories
        (map (\<lambda>(dirPath, count). \<lparr>dir_path = dirPath, dir_label = getDirectoryLabel dirPath,
                                  dir_componentCount = count\<rparr>) dm)"
    by (auto simp: analyzeComponents_def split: sum.splits prod.splits)
  have "dirInv ([], [])" by (simp add: dirInv_def dirCount_def)
  from dirInv_collect [OF this coll] have dist: "distinct (map fst dm)"
    and cnt: "\<And>d. map_of dm d = (if dirCount d cs = 0 then None else Some (dirCount d cs))"
    by (simp_all add: dirInv_def)
  have count_sorted:
    "\<And>d. length (filter (\<lambda>c. comp_directory c = d) (cd_components res)) = dirCount d cs"
    by (simp add: comps length_filter_sort_by dirCount_def)
  have part1: "\<forall>d \<in> set (cd_directories res).
      dir_componentCount d =
        length (filter (\<lambda>c. comp_directory c = dir_path d) (cd_components res))"
  proof
    fix d assume "d \<in> set (cd_directories res)"
    then obtain k n where kn: "(k, n) \<in> set dm"
      and d: "dir_path d = k" "dir_componentCount d = n"
      by (auto simp: dirs set_sort_by)
    from kn dist have "map_of dm k = Some n" by simp
    with cnt [of k] have "n = dirCount k cs" by (simp split: if_splits)
    with d count_sorted show "dir_componentCount d =
       length (filter (\<lambda>c. comp_directory c = dir_path d) (cd_components res))" by simp
  qed
  have part2: "\<forall>c \<in> set (cd_components res).
      length (filter (\<lambda>d. dir_path d = comp_directory c) (cd_directories res)) = 1"
  proof
    fix c assume c: "c \<in> set (cd_components res)"
    then have "c \<in> set cs" by (simp add: comps set_sort_by)
    then have "dirCount (comp_directory c) cs \<noteq> 0"
      by (auto simp: dirCount_def filter_empty_conv)
    with cnt [of "comp_directory c"] obtain n where
      "map_of dm (comp_directory c) = Some n" by auto
    from length_filter_fst_distinct [OF dist this]
    have "length (filter (\<lambda>p. fst p = comp_directory c) dm) = 1" .
    moreover have "length (filter (\<lambda>d. dir_path d = comp_directory c) (cd_directories res))
        = length (filter (\<lambda>p. fst p = comp_directory c) dm)"
      by (simp add: dirs length_filter_sort_by filter_map o_def case_prod_unfold)
    ultimately show
      "length (filter (\<lambda>d. dir_path d = comp_directory c) (cd_directories res)) = 1"
      by simp
  qed
  from part1 part2 show ?thesis by blast
qed

theorem directories_consistent_with_components_witness:
  "analyzeComponents demo_components codeUnitCompare ''t'' ''/proj'' = Inr demo_components_result \<and>
   list_all (\<lambda>d. dir_componentCount d =
        length (filter (\<lambda>c. comp_directory c = dir_path d) (cd_components demo_components_result)))
     (cd_directories demo_components_result) \<and>
   list_all (\<lambda>c. length (filter (\<lambda>d. dir_path d = comp_directory c)
        (cd_directories demo_components_result)) = 1) (cd_components demo_components_result)"
  using directories_consistent_with_components [OF demo_components_run] demo_components_run
  by (simp add: list_all_iff)

subsection \<open>The route analyzer\<close>

lemma set_insert_by: "set (insert_by cmp x ys) = insert x (set ys)"
  by (induction ys) auto

lemma sorted_insert_by:
  assumes total: "\<And>a b. cmp a b \<le> 0 \<or> cmp b a \<le> 0"
    and trans: "\<And>a b c. cmp a b \<le> 0 \<Longrightarrow> cmp b c \<le> 0 \<Longrightarrow> cmp a c \<le> 0"
  shows "sorted_wrt (\<lambda>a b. cmp a b \<le> 0) ys \<Longrightarrow> sorted_wrt (\<lambda>a b. cmp a b \<le> 0) (insert_by cmp x ys)"
proof (induction ys)
  case Nil
  then show ?case by simp
next
  case (Cons y ys)
  show ?case
  proof (cases "cmp x y \<le> 0")
    case True
    with Cons.prems trans show ?thesis by auto
  next
    case False
    with total have "cmp y x \<le> 0" by blast
    with False Cons show ?thesis by (auto simp: set_insert_by)
  qed
qed

lemma sorted_sort_by:
  assumes total: "\<And>a b. cmp a b \<le> 0 \<or> cmp b a \<le> 0"
    and trans: "\<And>a b c. cmp a b \<le> 0 \<Longrightarrow> cmp b c \<le> 0 \<Longrightarrow> cmp a c \<le> 0"
  shows "sorted_wrt (\<lambda>a b. cmp a b \<le> 0) (sort_by cmp xs)"
proof (induction xs)
  case Nil
  then show ?case by (simp add: sort_by_def)
next
  case (Cons x xs)
  have "sorted_wrt (\<lambda>a b. cmp a b \<le> 0) (insert_by cmp x (sort_by cmp xs))"
    using total trans Cons.IH by (rule sorted_insert_by)
  then show ?case by (simp add: sort_by_def)
qed

lemma consistent_sym: "consistentComparator cmp \<Longrightarrow> sgn (cmp a b) = - sgn (cmp b a)"
  unfolding consistentComparator_def by blast

lemma consistent_trans:
  "consistentComparator cmp \<Longrightarrow> cmp a b \<le> 0 \<Longrightarrow> cmp b c \<le> 0 \<Longrightarrow> cmp a c \<le> 0"
  unfolding consistentComparator_def by blast

lemma consistent_flip: "consistentComparator cmp \<Longrightarrow> (cmp a b \<le> 0) = (0 \<le> cmp b a)"
  using consistent_sym [of cmp a b] by (auto simp: sgn_if split: if_splits)

lemma consistent_eq0: "consistentComparator cmp \<Longrightarrow> (cmp a b = 0) = (cmp b a = 0)"
  using consistent_sym [of cmp a b] by (auto simp: sgn_if split: if_splits)

lemma compareRoutes_le: "(compareRoutes lc a b \<le> 0) = routeLe lc a b"
  by (auto simp: compareRoutes_def routeLe_def Let_def)

lemma routeLe_total:
  assumes "consistentComparator lc"
  shows "routeLe lc a b \<or> routeLe lc b a"
  using consistent_flip [OF assms, of "route_path a" "route_path b"]
    consistent_eq0 [OF assms, of "route_path a" "route_path b"]
    consistent_flip [OF assms, of "method_name (route_method a)" "method_name (route_method b)"]
  unfolding routeLe_def by linarith

lemma routeLe_trans:
  assumes c: "consistentComparator lc" and ab: "routeLe lc a b" and bc: "routeLe lc b c"
  shows "routeLe lc a c"
proof -
  let ?p = "\<lambda>x y. lc (route_path x) (route_path y)"
  let ?m = "\<lambda>x y. lc (method_name (route_method x)) (method_name (route_method y))"
  from ab bc have le: "?p a b \<le> 0" "?p b c \<le> 0" by (auto simp: routeLe_def)
  then have ac: "?p a c \<le> 0" using consistent_trans [OF c] by blast
  show ?thesis
  proof (cases "?p a c = 0")
    case False
    with ac show ?thesis by (simp add: routeLe_def)
  next
    case True
    then have ca: "?p c a \<le> 0" using consistent_eq0 [OF c, of "route_path a" "route_path c"] by simp
    from consistent_trans [OF c ca le(1)] have "?p c b \<le> 0" .
    with le(2) consistent_flip [OF c, of "route_path c" "route_path b"] have bc0: "?p b c = 0" by simp
    from consistent_trans [OF c le(2) ca] have "?p b a \<le> 0" .
    with le(1) consistent_flip [OF c, of "route_path b" "route_path a"] have ab0: "?p a b = 0" by simp
    from ab ab0 have "?m a b \<le> 0" by (simp add: routeLe_def)
    moreover from bc bc0 have "?m b c \<le> 0" by (simp add: routeLe_def)
    ultimately have "?m a c \<le> 0" using consistent_trans [OF c] by blast
    with True show ?thesis by (simp add: routeLe_def)
  qed
qed

text \<open>
  C6, amended: the routes returned are sorted by the order of \<^verbatim>\<open>localeCompare\<close>, by
  \<^verbatim>\<open>localeCompare\<close> of the paths first and of the methods where it is zero on the paths,
  and that order is total and transitive; this holds for every consistent comparison
  function in the place of \<^verbatim>\<open>localeCompare\<close>, so for the collation of every locale.
\<close>

theorem routes_sorted_by_path_then_method:
  assumes "consistentComparator lc"
    and "analyzeRoutes root lc now projectPath = Inr res"
  shows "sorted_wrt (routeLe lc) (rd_routes res) \<and>
         (\<forall>a b. routeLe lc a b \<or> routeLe lc b a) \<and>
         (\<forall>a b c. routeLe lc a b \<and> routeLe lc b c \<longrightarrow> routeLe lc a c)"
proof -
  from assms(2) obtain routes where r: "rd_routes res = sort_by (compareRoutes lc) routes"
    by (auto simp: analyzeRoutes_def split: sum.splits)
  have "sorted_wrt (\<lambda>a b. compareRoutes lc a b \<le> 0) (sort_by (compareRoutes lc) routes)"
    by (rule sorted_sort_by)
       (use routeLe_total [OF assms(1)] routeLe_trans [OF assms(1)] in \<open>auto simp: compareRoutes_le\<close>)
  then have "sorted_wrt (routeLe lc) (rd_routes res)" by (simp add: r compareRoutes_le)
  with routeLe_total [OF assms(1)] routeLe_trans [OF assms(1)] show ?thesis by blast
qed

lemma demo_routes_run:
  "analyzeRoutes demo_routes codeUnitCompare ''t'' ''/proj'' = Inr demo_routes_result"
  by code_simp

lemma collectRoutes_eq:
  "collectRoutes root pp dirs acc = Inr rs \<Longrightarrow>
   rs = acc @ concat (map (routeRecords root pp) (concat (map (routeFilesIn root) dirs)))"
proof (induction dirs arbitrary: acc)
  case Nil
  then show ?case by simp
next
  case (Cons d dirs)
  from Cons.prems obtain files where f: "findApiRoutes root d = Inr files"
    and rest: "collectRoutes root pp dirs (acc @ concat (map (routeRecords root pp) files)) = Inr rs"
    by (auto split: sum.splits)
  from Cons.IH [OF rest] f show ?case by (simp add: routeFilesIn_def)
qed

lemma routeRecords_file: "r \<in> set (routeRecords root pp f) \<Longrightarrow> route_file r = path_relative pp f"
  by (auto simp: routeRecords_def Let_def split: sum.splits)

lemma routeRecords_path:
  "r \<in> set (routeRecords root pp f) \<Longrightarrow>
   route_path r = pathToApiRoute f pp \<and> route_feature r = extractFeature (pathToApiRoute f pp)"
  by (auto simp: routeRecords_def Let_def split: sum.splits)

lemma length_routeRecords:
  "readFileSync root f = Inr content \<Longrightarrow>
   length (routeRecords root pp f) = length (extractMethods content)"
  by (simp add: routeRecords_def Let_def)

lemma distinct_extractMethods: "distinct (extractMethods content)"
  by (simp add: extractMethods_def HTTP_METHODS_def)

lemma set_extractMethods:
  "set (extractMethods content) =
   {m \<in> set HTTP_METHODS. \<exists>pattern \<in> set (method_patterns m). test pattern content}"
  by (auto simp: extractMethods_def list_ex_iff)

lemma filter_concat_unique:
  assumes "distinct (map h xs)" and "f \<in> set xs"
    and "\<And>x r. r \<in> set (F x) \<Longrightarrow> key r = h x"
  shows "filter (\<lambda>r. key r = h f) (concat (map F xs)) = F f"
  using assms(1,2)
proof (induction xs)
  case Nil
  then show ?case by simp
next
  case (Cons x xs)
  have all: "\<And>y. filter (\<lambda>r. key r = h y) (F y) = F y"
    using assms(3) by (simp add: filter_id_conv)
  have none: "\<And>ys. h f \<notin> h ` set ys \<Longrightarrow> filter (\<lambda>r. key r = h f) (concat (map F ys)) = []"
    using assms(3) by (fastforce simp: filter_empty_conv image_iff)
  show ?case
  proof (cases "x = f")
    case True
    with Cons.prems have "h f \<notin> h ` set xs" by auto
    from none [OF this] True all show ?thesis by simp
  next
    case False
    with Cons.prems have "f \<in> set xs" "h x \<noteq> h f" "distinct (map h xs)" by auto
    moreover have "filter (\<lambda>r. key r = h f) (F x) = []"
      using assms(3) \<open>h x \<noteq> h f\<close> by (auto simp: filter_empty_conv)
    ultimately show ?thesis using Cons.IH by simp
  qed
qed

text \<open>
  C5: for a route file that the pass found and read, the routes returned hold as many
  records of that file as there are HTTP methods that one of the two export patterns
  detects in its content, and all of them have the path and the feature derived from the
  file's path. Files are told apart by their path relative to the project, which no two
  files of a file system share.
\<close>

theorem route_records_per_file:
  assumes run: "analyzeRoutes root lc now projectPath = Inr res"
    and disc: "routeFile \<in> set (discoveredRouteFiles root projectPath)"
    and uniq: "distinct (map (path_relative projectPath) (discoveredRouteFiles root projectPath))"
    and read: "readFileSync root routeFile = Inr content"
  shows "length (filter (\<lambda>r. route_file r = path_relative projectPath routeFile) (rd_routes res)) =
           card {m \<in> set HTTP_METHODS. \<exists>pattern \<in> set (method_patterns m). test pattern content} \<and>
         (\<forall>r \<in> set (rd_routes res).
            route_file r = path_relative projectPath routeFile \<longrightarrow>
            route_path r = pathToApiRoute routeFile projectPath \<and>
            route_feature r = extractFeature (pathToApiRoute routeFile projectPath))"
proof -
  let ?P = "\<lambda>r. route_file r = path_relative projectPath routeFile"
  from run obtain routes where
    coll: "collectRoutes root projectPath (possibleApiDirs projectPath) [] = Inr routes"
    and sorted: "rd_routes res = sort_by (compareRoutes lc) routes"
    by (auto simp: analyzeRoutes_def split: sum.splits)
  from collectRoutes_eq [OF coll]
  have routes: "routes = concat (map (routeRecords root projectPath)
                                     (discoveredRouteFiles root projectPath))"
    by (simp add: discoveredRouteFiles_def)
  have own: "filter ?P routes = routeRecords root projectPath routeFile"
    unfolding routes using uniq disc routeRecords_file by (rule filter_concat_unique)
  have "length (filter ?P (rd_routes res)) = length (extractMethods content)"
    by (simp add: sorted length_filter_sort_by own length_routeRecords [OF read])
  also have "\<dots> = card (set (extractMethods content))"
    by (simp add: distinct_card [OF distinct_extractMethods])
  finally have count: "length (filter ?P (rd_routes res)) =
      card {m \<in> set HTTP_METHODS. \<exists>pattern \<in> set (method_patterns m). test pattern content}"
    by (simp only: set_extractMethods)
  have shared: "\<forall>r \<in> set (rd_routes res). ?P r \<longrightarrow>
      route_path r = pathToApiRoute routeFile projectPath \<and>
      route_feature r = extractFeature (pathToApiRoute routeFile projectPath)"
  proof (intro ballI impI)
    fix r assume "r \<in> set (rd_routes res)" and "?P r"
    then have "r \<in> set (filter ?P routes)" by (simp add: sorted set_sort_by)
    then have "r \<in> set (routeRecords root projectPath routeFile)" by (simp only: own)
    then show "route_path r = pathToApiRoute routeFile projectPath \<and>
      route_feature r = extractFeature (pathToApiRoute routeFile projectPath)"
      by (rule routeRecords_path)
  qed
  from count shared show ?thesis by blast
qed

lemma demo_routes_discovered:
  "discoveredRouteFiles demo_routes ''/proj'' =
     [''/proj/app/api/users/route.ts'', ''/proj/app/api/admin/route.ts'']"
  by code_simp

lemma demo_routes_read:
  "readFileSync demo_routes ''/proj/app/api/users/route.ts'' =
     Inr ''export async function GET(req) {}\<newline>export const POST = handler;''"
  by code_simp

theorem route_records_per_file_witness:
  "analyzeRoutes demo_routes codeUnitCompare ''t'' ''/proj'' = Inr demo_routes_result \<and>
   ''/proj/app/api/users/route.ts'' \<in> set (discoveredRouteFiles demo_routes ''/proj'') \<and>
   distinct (map (path_relative ''/proj'') (discoveredRouteFiles demo_routes ''/proj'')) \<and>
   length (filter (\<lambda>r. route_file r = path_relative ''/proj'' ''/proj/app/api/users/route.ts'')
                  (rd_routes demo_routes_result)) =
     card {m \<in> set HTTP_METHODS. \<exists>pattern \<in> set (method_patterns m).
             test pattern ''export async function GET(req) {}\<newline>export const POST = handler;''} \<and>
   length (filter (\<lambda>r. route_file r = path_relative ''/proj'' ''/proj/app/api/users/route.ts'')
                  (rd_routes demo_routes_result)) = 2 \<and>
   list_all (\<lambda>r. route_file r = path_relative ''/proj'' ''/proj/app/api/users/route.ts'' \<longrightarrow>
              route_path r = pathToApiRoute ''/proj/app/api/users/route.ts'' ''/proj'' \<and>
              route_feature r = extractFeature (pathToApiRoute ''/proj/app/api/users/route.ts'' ''/proj''))
            (rd_routes demo_routes_result)"
proof -
  have disc: "''/proj/app/api/users/route.ts'' \<in> set (discoveredRouteFiles demo_routes ''/proj'')"
    by (simp add: demo_routes_discovered)
  have uniq: "distinct (map (path_relative ''/proj'') (discoveredRouteFiles demo_routes ''/proj''))"
    unfolding demo_routes_discovered by code_simp
  have two: "length (filter (\<lambda>r. route_file r = path_relative ''/proj'' ''/proj/app/api/users/route.ts'')
                  (rd_routes demo_routes_result)) = 2"
    by code_simp
  from route_records_per_file [OF demo_routes_run disc uniq demo_routes_read] demo_routes_run disc uniq two
  show ?thesis by (simp only: list_all_iff) blast
qed

lemma localeCompareAscii_consistent: "consistentComparator localeCompareAscii"
  unfolding consistentComparator_def localeCompareAscii_def
  by (auto simp: sgn_if)

lemma demo_case_routes_run:
  "analyzeRoutes demo_case_routes localeCompareAscii ''t'' ''/proj'' = Inr demo_case_routes_result"
  by code_simp

text \<open>
  C6, as stated: the routes returned are sorted lexicographically by path, ties broken
  lexicographically by method. The sort compares with \<^verbatim>\<open>localeCompare\<close>, which puts
  \<^verbatim>\<open>/api/alpha\<close> before \<^verbatim>\<open>/api/Zed\<close>; in the lexicographic order of the strings
  \<^verbatim>\<open>/api/Zed\<close> comes first.
\<close>

theorem routes_not_in_lexicographic_order:
  "analyzeRoutes demo_case_routes localeCompareAscii ''t'' ''/proj'' = Inr demo_case_routes_result \<and>
   map route_path (rd_routes demo_case_routes_result) = [''/api/alpha'', ''/api/Zed''] \<and>
   localeCompareAscii ''/api/alpha'' ''/api/Zed'' = - 1 \<and>
   ''/api/Zed'' < ''/api/alpha'' \<and>
   \<not> sorted_wrt lexicographicRouteLe (rd_routes demo_case_routes_result)"
  by code_simp

theorem routes_sorted_by_path_then_method_witness:
  "consistentComparator localeCompareAscii \<and>
   analyzeRoutes demo_case_routes localeCompareAscii ''t'' ''/proj'' = Inr demo_case_routes_result \<and>
   sorted_wrt (routeLe localeCompareAscii) (rd_routes demo_case_routes_result)"
  using routes_sorted_by_path_then_method [OF localeCompareAscii_consistent demo_case_routes_run]
    localeCompareAscii_consistent demo_case_routes_run
  by blast

subsection \<open>The main analyzer\<close>

text \<open>
  C8: a project directory with no API directory, no component directory and no schema
  file gives null routes, components and models, and no error. The guard of the
  directory walks is \<^verbatim>\<open>existsSync\<close> alone: on the project that holds a regular file
  named \<^verbatim>\<open>app\<close> the walk of the component analyzer lists that file as a directory, and
  the analysis ends with the error \<^verbatim>\<open>ENOTDIR\<close>.
\<close>

theorem analysis_throws_on_plain_file_app:
  "analyzeCodebase demo_plain_file_app codeUnitCompare (\<lambda>text. None) (\<lambda>n. []) ''/proj''
     = Inl ENOTDIR"
  by code_simp

text \<open>What does hold when nothing exists at the paths the passes probe: the guards
  return, and the three results are null.\<close>

lemma analyzeRoutes_absent:
  assumes "\<And>d. d \<in> set (possibleApiDirs pp) \<Longrightarrow> \<not> existsSync root d"
  shows "analyzeRoutes root lc now pp = Inr \<lparr>rd_routes = [], rd_generatedAt = now, rd_projectPath = pp\<rparr>"
  using assms
  by (simp add: analyzeRoutes_def possibleApiDirs_def findApiRoutes_def sort_by_def)

lemma analyzeComponents_absent:
  assumes "\<And>d. d \<in> set (possibleComponentDirs pp) \<Longrightarrow> \<not> existsSync root d"
  shows "analyzeComponents root lc now pp =
     Inr \<lparr>cd_components = [], cd_directories = [], cd_generatedAt = now, cd_projectPath = pp\<rparr>"
  using assms
  by (simp add: analyzeComponents_def possibleComponentDirs_def findComponentFiles_def sort_by_def)

lemma analyzeModels_absent:
  assumes "\<And>s. s \<in> set PRISMA_SCHEMA_PATHS \<Longrightarrow> \<not> existsSync root (path_join [pp, s])"
  shows "analyzeModels root now pp = None"
proof -
  have "findPrismaSchema root pp = None"
    using assms by (auto simp: findPrismaSchema_def find_None_iff)
  then show ?thesis by (simp add: analyzeModels_def)
qed

lemma analyzeDependencies_directory:
  assumes "fs_lookup root pp = Some (Dir entries)"
  shows "\<exists>d. analyzeDependencies root now pp = Inr d"
  using assms
  by (auto simp: analyzeDependencies_def findSourceFiles_def existsSync_def readdirSync_def
        MAX_FILES_def Let_def split: prod.splits)

lemma absent_artifacts_give_null:
  assumes dir: "fs_lookup root pp = Some (Dir entries)"
    and api: "\<And>d. d \<in> set (possibleApiDirs pp) \<Longrightarrow> \<not> existsSync root d"
    and comp: "\<And>d. d \<in> set (possibleComponentDirs pp) \<Longrightarrow> \<not> existsSync root d"
    and schema: "\<And>s. s \<in> set PRISMA_SCHEMA_PATHS \<Longrightarrow> \<not> existsSync root (path_join [pp, s])"
  shows "\<exists>res. analyzeCodebase root lc jsonName clock pp = Inr res \<and>
           ar_routes res = None \<and> ar_components res = None \<and> ar_models res = None"
proof -
  from analyzeDependencies_directory [OF dir] obtain d where
    d: "analyzeDependencies root (clock 3) pp = Inr d" by blast
  show ?thesis
    unfolding analyzeCodebase_def Let_def
    by (simp add: analyzeRoutes_absent [OF api] analyzeComponents_absent [OF comp]
          analyzeModels_absent [OF schema] d)
qed

subsection \<open>The model analyzer\<close>

lemma fold_relationStep_filter:
  "fold (relationStep models m) fs st =
   fold (relationStep models m) (filter field_isRelation fs) st"
  by (induction fs arbitrary: st) (auto simp: relationStep_def split: prod.splits)

text \<open>
  C4: for a schema that declares the entities \<^verbatim>\<open>User\<close> and \<^verbatim>\<open>Post\<close>, where the only
  relation field of \<^verbatim>\<open>User\<close> is the array field \<^verbatim>\<open>posts Post[]\<close> and the only relation
  field of \<^verbatim>\<open>Post\<close> is the non-array field \<^verbatim>\<open>author User\<close>, the relationships extracted
  are exactly one record: from \<^verbatim>\<open>User\<close> to \<^verbatim>\<open>Post\<close>, one-to-many, field \<^verbatim>\<open>posts\<close>.
\<close>

theorem user_posts_one_to_many:
  assumes parsed: "fst (parseModels content) =
            [\<lparr>model_name = ''User'', model_fields = userFields\<rparr>,
             \<lparr>model_name = ''Post'', model_fields = postFields\<rparr>]"
    and user: "filter field_isRelation userFields = [posts]"
      "field_name posts = ''posts''" "field_type posts = ''Post''" "field_isArray posts"
    and post: "filter field_isRelation postFields = [author]"
      "field_type author = ''User''" "\<not> field_isArray author"
  shows "extractRelationships (fst (parseModels content)) =
           [\<lparr>rel_from = ''User'', rel_to = ''Post'', rel_type = OneToMany,
             rel_fieldName = ''posts''\<rparr>]"
proof -
  define models where "models = fst (parseModels content)"
  let ?U = "\<lparr>model_name = ''User'', model_fields = userFields\<rparr>"
  let ?P = "\<lparr>model_name = ''Post'', model_fields = postFields\<rparr>"
  have models: "models = [?U, ?P]" by (simp add: models_def parsed)
  have rel_posts: "field_isRelation posts" and rel_author: "field_isRelation author"
  proof -
    have "posts \<in> set (filter field_isRelation userFields)" by (simp add: user(1))
    then show "field_isRelation posts" by simp
    have "author \<in> set (filter field_isRelation postFields)" by (simp add: post(1))
    then show "field_isRelation author" by simp
  qed
  have find_author:
    "find (\<lambda>f. field_type f = ''User'' \<and> field_isRelation f) postFields = Some author"
  proof -
    have "find (\<lambda>f. field_type f = ''User'' \<and> field_isRelation f) postFields =
          find (\<lambda>f. field_type f = ''User'') (filter field_isRelation postFields)"
      by (induction postFields) auto
    with post show ?thesis by simp
  qed
  have type: "relationType models ?U posts = OneToMany"
    by (simp add: relationType_def models user find_author post)
  have key: "relationKey ''Post'' ''User'' = relationKey ''User'' ''Post''"
    by (simp add: relationKey_def)
  have "extractRelationships models =
        fst (fold (relationStep models ?P) (filter field_isRelation postFields)
              (fold (relationStep models ?U) (filter field_isRelation userFields) ([], [])))"
    by (simp add: extractRelationships_def fold_relationStep_filter [symmetric])
       (simp add: models)
  then have "extractRelationships models =
      [\<lparr>rel_from = ''User'', rel_to = ''Post'', rel_type = OneToMany,
        rel_fieldName = ''posts''\<rparr>]"
    by (simp add: user post relationStep_def rel_posts rel_author type key Let_def)
  then show ?thesis by (simp only: models_def)
qed

lemma demo_schema_parsed:
  "fst (parseModels demo_schema) =
     [\<lparr>model_name = ''User'', model_fields =
         [\<lparr>field_name = ''id'', field_type = ''String'', field_isRelation = False,
            field_isOptional = False, field_isArray = False\<rparr>,
          \<lparr>field_name = ''posts'', field_type = ''Post'', field_isRelation = True,
            field_isOptional = False, field_isArray = True\<rparr>]\<rparr>,
      \<lparr>model_name = ''Post'', model_fields =
         [\<lparr>field_name = ''id'', field_type = ''String'', field_isRelation = False,
            field_isOptional = False, field_isArray = False\<rparr>,
          \<lparr>field_name = ''author'', field_type = ''User'', field_isRelation = True,
            field_isOptional = False, field_isArray = False\<rparr>]\<rparr>]"
  by code_simp

theorem user_posts_one_to_many_witness:
  "fst (parseModels demo_schema) =
     [\<lparr>model_name = ''User'', model_fields =
         [\<lparr>field_name = ''id'', field_type = ''String'', field_isRelation = False,
            field_isOptional = False, field_isArray = False\<rparr>,
          \<lparr>field_name = ''posts'', field_type = ''Post'', field_isRelation = True,
            field_isOptional = False, field_isArray = True\<rparr>]\<rparr>,
      \<lparr>model_name = ''Post'', model_fields =
         [\<lparr>field_name = ''id'', field_type = ''String'', field_isRelation = False,
            field_isOptional = False, field_isArray = False\<rparr>,
          \<lparr>field_name = ''author'', field_type = ''User'', field_isRelation = True,
            field_isOptional = False, field_isArray = False\<rparr>]\<rparr>] \<and>
   extractRelationships (fst (parseModels demo_schema)) =
     [\<lparr>rel_from = ''User'', rel_to = ''Post'', rel_type = OneToMany, rel_fieldName = ''posts''\<rparr>]"
proof -
  have "extractRelationships (fst (parseModels demo_schema)) =
     [\<lparr>rel_from = ''User'', rel_to = ''Post'', rel_type = OneToMany, rel_fieldName = ''posts''\<rparr>]"
    by (rule user_posts_one_to_many [OF demo_schema_parsed]) simp+
  with demo_schema_parsed show ?thesis by blast
qed

subsection \<open>The matcher\<close>

lemma star_cont:
  "star p st k xs = Some x \<Longrightarrow>
   \<exists>n st'. n \<le> length xs \<and> (\<forall>c \<in> set (take n xs). p c) \<and> k st' = Some x \<and>
           rest st' = drop n xs \<and> caps st' = caps st"
proof (induction xs arbitrary: st)
  case Nil
  then show ?case by (intro exI [of _ 0] exI [of _ "st\<lparr>rest := []\<rparr>"]) simp
next
  case (Cons y ys)
  show ?case
  proof (cases "p y \<and> star p (st\<lparr>prev := Some y\<rparr>) k ys \<noteq> None")
    case True
    with Cons.prems have "star p (st\<lparr>prev := Some y\<rparr>) k ys = Some x"
      by (auto split: option.splits)
    from Cons.IH [OF this] obtain n st' where
      "n \<le> length ys" "\<forall>c \<in> set (take n ys). p c" "k st' = Some x"
      "rest st' = drop n ys" "caps st' = caps st" by auto
    with True show ?thesis
      by (intro exI [of _ "Suc n"] exI [of _ st']) simp
  next
    case False
    with Cons.prems have "k (st\<lparr>rest := y # ys\<rparr>) = Some x"
      by (auto split: option.splits if_splits)
    then show ?thesis
      by (intro exI [of _ 0] exI [of _ "st\<lparr>rest := y # ys\<rparr>"]) simp
  qed
qed

text \<open>The matcher calls its continuation on a suffix of the input, at least \<open>min_len\<close>
  characters on.\<close>

lemma rm_cont:
  "rm r st k = Some x \<Longrightarrow>
   \<exists>n st'. k st' = Some x \<and> rest st' = drop n (rest st) \<and> n \<le> length (rest st) \<and> min_len r \<le> n"
proof (induction r arbitrary: st k)
  case (Lit s)
  let ?st = "st\<lparr>prev := (if s = [] then prev st else Some (last s)),
                  rest := drop (length s) (rest st)\<rparr>"
  from Lit have sw: "starts_with (rest st) s" and k: "k ?st = Some x"
    by (simp_all split: if_splits)
  from sw have "length (take (length s) (rest st)) = length s"
    unfolding starts_with_def by simp
  then have "length s \<le> length (rest st)" by simp
  with k show ?case
    by (intro exI [of _ "length s"] exI [of _ ?st]) simp
next
  case (One c)
  then obtain y ys where "rest st = y # ys" "k (st\<lparr>prev := Some y, rest := ys\<rparr>) = Some x"
    by (cases "rest st") (simp_all split: if_splits)
  then show ?case by (intro exI [of _ 1] exI [of _ "st\<lparr>prev := Some y, rest := ys\<rparr>"]) simp
next
  case (Star c)
  then have "star (cc c) st k (rest st) = Some x" by simp
  from star_cont [OF this] obtain n st' where
    "n \<le> length (rest st)" "k st' = Some x" "rest st' = drop n (rest st)" by blast
  then show ?case by (intro exI [of _ n] exI [of _ st']) simp
next
  case (Plus c)
  then obtain y ys where r: "rest st = y # ys"
    and "star (cc c) (st\<lparr>prev := Some y\<rparr>) k ys = Some x"
    by (cases "rest st") (simp_all split: if_splits)
  from star_cont [OF this(2)] obtain n st' where
    "n \<le> length ys" "k st' = Some x" "rest st' = drop n ys" by blast
  with r show ?case by (intro exI [of _ "Suc n"] exI [of _ st']) simp
next
  case (Seq a b)
  then have "rm a st (\<lambda>st'. rm b st' k) = Some x" by simp
  from Seq.IH(1) [OF this] obtain n st1 where
    1: "rm b st1 k = Some x" "rest st1 = drop n (rest st)" "n \<le> length (rest st)" "min_len a \<le> n"
    by blast
  from Seq.IH(2) [OF 1(1)] obtain m st2 where
    2: "k st2 = Some x" "rest st2 = drop m (rest st1)" "m \<le> length (rest st1)" "min_len b \<le> m"
    by blast
  from 1 2 show ?case
    by (intro exI [of _ "n + m"] exI [of _ st2]) (simp add: add.commute)
next
  case (Alt a b)
  then have "rm a st k = Some x \<or> rm b st k = Some x" by (simp split: option.splits)
  then show ?case
  proof
    assume "rm a st k = Some x"
    from Alt.IH(1) [OF this] obtain n st' where
      "k st' = Some x" "rest st' = drop n (rest st)" "n \<le> length (rest st)" "min_len a \<le> n"
      by blast
    then show ?thesis by (intro exI [of _ n] exI [of _ st']) simp
  next
    assume "rm b st k = Some x"
    from Alt.IH(2) [OF this] obtain n st' where
      "k st' = Some x" "rest st' = drop n (rest st)" "n \<le> length (rest st)" "min_len b \<le> n"
      by blast
    then show ?thesis by (intro exI [of _ n] exI [of _ st']) simp
  qed
next
  case (Opt a)
  then have "rm a st k = Some x \<or> k st = Some x" by (simp split: option.splits)
  then show ?case
  proof
    assume "rm a st k = Some x"
    from Opt.IH [OF this] obtain n st' where
      "k st' = Some x" "rest st' = drop n (rest st)" "n \<le> length (rest st)" by blast
    then show ?thesis by (intro exI [of _ n] exI [of _ st']) simp
  next
    assume "k st = Some x"
    then show ?thesis by (intro exI [of _ 0] exI [of _ st]) simp
  qed
next
  case (Cap g a)
  let ?k = "\<lambda>st'. k (st'\<lparr>caps := (g, take (length (rest st) - length (rest st')) (rest st)) # caps st'\<rparr>)"
  from Cap.prems have "rm a st ?k = Some x" by simp
  from Cap.IH [OF this] obtain n st' where
    "?k st' = Some x" "rest st' = drop n (rest st)" "n \<le> length (rest st)" "min_len a \<le> n"
    by blast
  then show ?case
    by (intro exI [of _ n]
          exI [of _ "st'\<lparr>caps := (g, take (length (rest st) - length (rest st')) (rest st)) # caps st'\<rparr>"])
       simp
next
  case Start
  then have "k st = Some x" by (simp split: if_splits)
  then show ?case by (intro exI [of _ 0] exI [of _ st]) simp
next
  case Bol
  then have "k st = Some x" by (simp split: option.splits if_splits)
  then show ?case by (intro exI [of _ 0] exI [of _ st]) simp
next
  case Eol
  then have "k st = Some x" by (simp split: list.splits if_splits)
  then show ?case by (intro exI [of _ 0] exI [of _ st]) simp
next
  case End
  then have "k st = Some x" by (simp split: if_splits)
  then show ?case by (intro exI [of _ 0] exI [of _ st]) simp
qed

lemma match_here_rest:
  "match_here r pv s = Some st \<Longrightarrow> length (rest st) + min_len r \<le> length s"
proof -
  assume "match_here r pv s = Some st"
  then have "rm r \<lparr>prev = pv, rest = s, caps = []\<rparr> Some = Some st" by (simp add: match_here_def)
  from rm_cont [OF this] show ?thesis by auto
qed

lemma exec_rest:
  "exec r pv s = Some (skipped, st) \<Longrightarrow> length (rest st) + min_len r \<le> length s"
proof (induction s arbitrary: pv skipped)
  case Nil
  then show ?case using match_here_rest [of r pv "[]" st] by auto
next
  case (Cons y ys)
  show ?case
  proof (cases "match_here r pv (y # ys)")
    case None
    with Cons.prems obtain sk where "exec r (Some y) ys = Some (sk, st)"
      by (auto split: option.splits)
    from Cons.IH [OF this] show ?thesis by simp
  next
    case (Some st')
    with Cons.prems have "st' = st" by simp
    with Some match_here_rest [of r pv "y # ys" st] show ?thesis by simp
  qed
qed

text \<open>For a regular expression whose matches consume something, the guard of the loop
  always holds.\<close>

lemma exec_all_unfold:
  assumes "0 < min_len r"
  shows "exec_all r pv s =
     (case exec r pv s of
        None \<Rightarrow> []
      | Some (skipped, st) \<Rightarrow> st # exec_all r (prev st) (rest st))"
proof (cases "exec r pv s")
  case None
  then show ?thesis by (subst exec_all.simps) simp
next
  case (Some m)
  obtain skipped st where m: "m = (skipped, st)" by (cases m)
  from exec_rest [of r pv s skipped st] Some m assms have "length (rest st) < length s" by simp
  with Some m show ?thesis by (subst exec_all.simps) simp
qed

lemma global_regexes_consume:
  "0 < min_len dependency_import" "0 < min_len importRegex"
  "0 < min_len modelNameRegex" "0 < min_len modelRegex"
  by (simp_all add: dependency_import_def importRegex_def modelNameRegex_def modelRegex_def)

subsection \<open>Node ids\<close>

lemma demo_collision_run:
  "analyzeDependencies demo_collision ''t'' ''/proj'' = Inr demo_collision_result"
  by code_simp

lemma demo_collision_files:
  "findSourceFiles demo_collision ''/proj'' = Inr [''/proj/lib/utils.ts'', ''/proj/lib_utils.ts'']"
  by code_simp

text \<open>
  C1: distinct files that the dependency pass finds have distinct node ids. The analyzer
  uses the id as the identity of the file (in the test for self-loops, in the clusters
  and in the keys of the edges), but derives it by replacing the separators of the
  relative path by \<^verbatim>\<open>_\<close> and dropping the extension: \<^verbatim>\<open>lib/utils.ts\<close> and
  \<^verbatim>\<open>lib_utils.ts\<close> are both found and both get the id \<^verbatim>\<open>lib_utils\<close>.
\<close>

theorem node_ids_collide:
  "findSourceFiles demo_collision ''/proj'' = Inr [''/proj/lib/utils.ts'', ''/proj/lib_utils.ts''] \<and>
   analyzeDependencies demo_collision ''t'' ''/proj'' = Inr demo_collision_result \<and>
   map node_id (dd_nodes demo_collision_result) = [''lib_utils'', ''lib_utils'']"
  by (simp add: demo_collision_files demo_collision_run) (simp add: demo_collision_result_def)

text \<open>The directory of the project exists, so that the files are those of the walk.\<close>

theorem node_ids_collide_witness:
  "existsSync demo_collision ''/proj'' \<and>
   findSourceFiles demo_collision ''/proj'' = Inr [''/proj/lib/utils.ts'', ''/proj/lib_utils.ts''] \<and>
   map node_id (dd_nodes demo_collision_result) = [''lib_utils'', ''lib_utils'']"
proof -
  have "existsSync demo_collision ''/proj''"
    by code_simp
  with node_ids_collide show ?thesis
    by blast
qed

lemma star_to_end:
  "(\<forall>c \<in> set xs. p c) \<Longrightarrow> \<exists>st'. star p st (\<lambda>s. rm End s Some) xs = Some st' \<and> rest st' = []"
proof (induction xs arbitrary: st)
  case Nil
  then show ?case by simp
next
  case (Cons y ys)
  then have "\<forall>c \<in> set ys. p c" and py: "p y" by simp_all
  from Cons.IH [OF this(1), of "st\<lparr>prev := Some y\<rparr>"] obtain st' where
    "star p (st\<lparr>prev := Some y\<rparr>) (\<lambda>s. rm End s Some) ys = Some st'" "rest st' = []" by blast
  with py show ?case by simp
qed

lemma star_not_to_end:
  assumes "\<not> (\<forall>c \<in> set xs. p c)"
  shows "star p st (\<lambda>s. rm End s Some) xs = None"
proof (rule ccontr)
  assume "star p st (\<lambda>s. rm End s Some) xs \<noteq> None"
  then obtain x where "star p st (\<lambda>s. rm End s Some) xs = Some x" by blast
  from star_cont [OF this] obtain n st' where
    n: "\<forall>c \<in> set (take n xs). p c" "rm End st' Some = Some x" "rest st' = drop n xs" by blast
  from n(2) have "rest st' = []" by (simp split: if_splits)
  with n(3) have "take n xs = xs" by simp
  with n(1) assms show False by simp
qed

lemma match_extension_suffix:
  assumes "ext \<noteq> []" and "CHR ''.'' \<notin> set ext"
  shows "\<exists>st. match_here extension_suffix pv (CHR ''.'' # ext) = Some st \<and> rest st = []"
proof -
  from assms obtain y ys where ext: "ext = y # ys" and y: "y \<noteq> CHR ''.''"
    and ys: "\<forall>c \<in> set ys. cc (NoneOf ''.'') c"
    by (cases ext) auto
  from star_to_end [OF ys] obtain st' where
    "star (cc (NoneOf ''.'')) (\<lparr>prev = Some CHR ''.'', rest = y # ys, caps = []\<rparr>\<lparr>prev := Some y\<rparr>)
       (\<lambda>s. rm End s Some) ys = Some st'" "rest st' = []"
    by blast
  then show ?thesis
    by (simp add: match_here_def extension_suffix_def starts_with_def ext y)
qed

lemma no_match_extension_suffix:
  assumes "CHR ''.'' \<in> set t"
  shows "match_here extension_suffix pv (c # t) = None"
proof (cases "c = CHR ''.''")
  case False
  then show ?thesis by (simp add: match_here_def extension_suffix_def starts_with_def)
next
  case True
  from assms obtain y ys where t: "t = y # ys" by (cases t) auto
  show ?thesis
  proof (cases "y = CHR ''.''")
    case True
    with \<open>c = CHR ''.''\<close> t show ?thesis
      by (simp add: match_here_def extension_suffix_def starts_with_def)
  next
    case False
    with assms t have bad: "\<not> (\<forall>c \<in> set ys. cc (NoneOf ''.'') c)" by auto
    have "match_here extension_suffix pv (c # t) =
          star (cc (NoneOf ''.'')) \<lparr>prev = Some y, rest = y # ys, caps = []\<rparr>
            (\<lambda>s. rm End s Some) ys"
      using False \<open>c = CHR ''.''\<close> t
      by (simp add: match_here_def extension_suffix_def starts_with_def)
    also have "\<dots> = None" using bad by (rule star_not_to_end)
    finally show ?thesis .
  qed
qed

lemma exec_extension_suffix:
  assumes "ext \<noteq> []" and "CHR ''.'' \<notin> set ext"
  shows "\<exists>st. exec extension_suffix pv (pre @ CHR ''.'' # ext) = Some (pre, st) \<and> rest st = []"
proof (induction pre arbitrary: pv)
  case Nil
  from match_extension_suffix [OF assms, of pv] show ?case by auto
next
  case (Cons c pre)
  have "match_here extension_suffix pv (c # pre @ CHR ''.'' # ext) = None"
    by (rule no_match_extension_suffix) simp
  moreover from Cons [of "Some c"] obtain st where
    "exec extension_suffix (Some c) (pre @ CHR ''.'' # ext) = Some (pre, st)" "rest st = []"
    by blast
  ultimately show ?case by simp
qed

lemma remove_extension_suffix:
  assumes "ext \<noteq> []" and "CHR ''.'' \<notin> set ext"
  shows "remove_first extension_suffix (pre @ CHR ''.'' # ext) = pre"
proof -
  from exec_extension_suffix [OF assms, of None pre] obtain st where
    "exec extension_suffix None (pre @ CHR ''.'' # ext) = Some (pre, st)" "rest st = []" by blast
  then show ?thesis by (simp add: remove_first_def)
qed

lemma replace_separators_append:
  "replace_separators (a @ b) = replace_separators a @ replace_separators b"
  by (simp add: replace_separators_def)

lemma replace_separators_id:
  "CHR ''/'' \<notin> set s \<Longrightarrow> CHR 0x5C \<notin> set s \<Longrightarrow> replace_separators s = s"
  by (induction s) (auto simp: replace_separators_def)

lemma nodeIdOf_source_file:
  assumes "e \<in> set SOURCE_EXTENSIONS"
  shows "nodeIdOf (stem @ e) = replace_separators stem"
proof -
  from assms obtain ext where e: "e = CHR ''.'' # ext" and ext: "ext \<noteq> []" "CHR ''.'' \<notin> set ext"
    and sep: "CHR ''/'' \<notin> set e" "CHR 0x5C \<notin> set e"
    by (auto simp: SOURCE_EXTENSIONS_def)
  have "replace_separators (stem @ e) = replace_separators stem @ CHR ''.'' # ext"
    using replace_separators_id [OF sep] by (simp add: replace_separators_append e)
  then show ?thesis by (simp add: nodeIdOf_def remove_extension_suffix [OF ext])
qed

lemma replace_separators_inj:
  assumes "CHR ''_'' \<notin> set s" "CHR 0x5C \<notin> set s" "CHR ''_'' \<notin> set t" "CHR 0x5C \<notin> set t"
    and "replace_separators s = replace_separators t"
  shows "s = t"
  using assms
proof (induction s arbitrary: t)
  case Nil
  then show ?case by (simp add: replace_separators_def)
next
  case (Cons c s)
  then obtain d t' where t: "t = d # t'" by (cases t) (auto simp: replace_separators_def)
  with Cons.prems have "c = d" "replace_separators s = replace_separators t'"
    by (auto simp: replace_separators_def split: if_splits)
  with Cons t show ?case by simp
qed

lemma fold_nodeStep_nodes:
  "map node_id (fst (fold (nodeStep pp) files st)) =
     map node_id (fst st) @ map (\<lambda>f. nodeIdOf (path_relative pp f)) files"
proof (induction files arbitrary: st)
  case Nil
  then show ?case by simp
next
  case (Cons f files)
  obtain ns nm cm where st: "st = (ns, nm, cm)" by (cases st)
  show ?case by (simp add: Cons.IH) (simp add: st nodeStep_def Let_def)
qed

lemma analyzeDependencies_node_ids:
  assumes "analyzeDependencies root now pp = Inr res" and "findSourceFiles root pp = Inr files"
  shows "map node_id (dd_nodes res) = map (\<lambda>f. nodeIdOf (path_relative pp f)) files"
proof -
  from assms have "dd_nodes res = fst (fold (nodeStep pp) files ([], [], []))"
    by (auto simp: analyzeDependencies_def Let_def split: prod.splits)
  then show ?thesis by (simp add: fold_nodeStep_nodes)
qed

text \<open>When two source files get the same id: exactly when their paths without the
  extensions are equal after the separators are replaced.\<close>

lemma nodeIdOf_eq_iff:
  assumes "e1 \<in> set SOURCE_EXTENSIONS" and "e2 \<in> set SOURCE_EXTENSIONS"
  shows "(nodeIdOf (s @ e1) = nodeIdOf (t @ e2)) = (replace_separators s = replace_separators t)"
  by (simp add: nodeIdOf_source_file [OF assms(1)] nodeIdOf_source_file [OF assms(2)])

lemma same_stem_ids_collide:
  "nodeIdOf ''lib/a.ts'' = nodeIdOf ''lib/a.tsx''"
  by code_simp

subsection \<open>Edges\<close>

lemma demo_imports_run:
  "analyzeDependencies demo_imports ''t'' ''/proj'' = Inr demo_imports_result"
  by code_simp

lemma demo_imports_files:
  "findSourceFiles demo_imports ''/proj'' =
     Inr [''/proj/lib/foo.ts'', ''/proj/lib/bar.ts'', ''/proj/lib/baz/index.ts'']"
  by code_simp

lemma fold_nodeStep_map:
  "map_of (fst (snd (fold (nodeStep pp) files st))) =
     (\<lambda>f. if f \<in> set files then Some (nodeIdOf (path_relative pp f)) else map_of (fst (snd st)) f)"
proof (induction files arbitrary: st)
  case Nil
  then show ?case by simp
next
  case (Cons g files)
  obtain ns nm cm where st: "st = (ns, nm, cm)" by (cases st)
  have "map_of (fst (snd (nodeStep pp g st))) = (map_of nm)(g \<mapsto> nodeIdOf (path_relative pp g))"
    by (simp add: st nodeStep_def Let_def map_of_map_set)
  then show ?case by (auto simp: Cons.IH st fun_eq_iff)
qed

lemma map_get_nodeMapOf:
  "map_get (nodeMapOf pp files) f =
     (if f \<in> set files then Some (nodeIdOf (path_relative pp f)) else None)"
  by (simp add: map_get_def nodeMapOf_def fold_nodeStep_map)

lemma fileEdges_iff:
  "e \<in> set (fileEdges root pp (nodeMapOf pp files) x) \<longleftrightarrow>
     x \<in> set files \<and> edge_source e = nodeIdOf (path_relative pp x) \<and> edge_source e \<noteq> [] \<and>
     edge_target e \<noteq> [] \<and> edge_target e \<noteq> edge_source e \<and>
     (\<exists>y \<in> set files. edge_target e = nodeIdOf (path_relative pp y) \<and> importsFile root pp x y)"
  (is "?L \<longleftrightarrow> ?R")
proof
  assume l: ?L
  then obtain content where rd: "readFileSync root x = Inr content"
    by (cases "readFileSync root x") (simp_all add: fileEdges_def)
  from l rd have x: "x \<in> set files" and nonempty: "nodeIdOf (path_relative pp x) \<noteq> []"
    by (auto simp: fileEdges_def map_get_nodeMapOf Let_def split: if_splits)
  let ?F = "\<lambda>importPath. case resolveImportPath root importPath x pp of
                    None \<Rightarrow> []
                  | Some resolvedPath \<Rightarrow>
                      (case map_get (nodeMapOf pp files) resolvedPath of
                         None \<Rightarrow> []
                       | Some targetId \<Rightarrow>
                           if targetId \<noteq> [] \<and> targetId \<noteq> nodeIdOf (path_relative pp x)
                           then [\<lparr>edge_source = nodeIdOf (path_relative pp x), edge_target = targetId\<rparr>]
                           else [])"
  from l rd x nonempty have "e \<in> set (concat (map ?F (extractImports content)))"
    by (simp add: fileEdges_def map_get_nodeMapOf Let_def)
  then obtain importPath where imp: "importPath \<in> set (extractImports content)"
    and mem: "e \<in> set (?F importPath)"
    unfolding set_concat set_map by blast
  from mem obtain y where res: "resolveImportPath root importPath x pp = Some y"
    by (cases "resolveImportPath root importPath x pp") simp_all
  from mem res have y: "y \<in> set files"
    by (simp add: map_get_nodeMapOf split: if_splits)
  with mem res have e: "e = \<lparr>edge_source = nodeIdOf (path_relative pp x),
                 edge_target = nodeIdOf (path_relative pp y)\<rparr>"
    and ok: "nodeIdOf (path_relative pp y) \<noteq> []"
            "nodeIdOf (path_relative pp y) \<noteq> nodeIdOf (path_relative pp x)"
    by (simp_all add: map_get_nodeMapOf split: if_splits)
  have "importsFile root pp x y" unfolding importsFile_def using rd imp res by blast
  with x y e ok nonempty show ?R by auto
next
  assume r: ?R
  then obtain y where
    x: "x \<in> set files" and y: "y \<in> set files"
    and src: "edge_source e = nodeIdOf (path_relative pp x)" "edge_source e \<noteq> []"
    and tgt: "edge_target e = nodeIdOf (path_relative pp y)" "edge_target e \<noteq> []"
      "edge_target e \<noteq> edge_source e"
    and "importsFile root pp x y"
    by blast
  then obtain content importPath where
    rd: "readFileSync root x = Inr content"
    and imp: "importPath \<in> set (extractImports content)"
    and res: "resolveImportPath root importPath x pp = Some y"
    unfolding importsFile_def by blast
  have e: "e = \<lparr>edge_source = nodeIdOf (path_relative pp x), edge_target = nodeIdOf (path_relative pp y)\<rparr>"
    using src tgt by simp
  let ?F = "\<lambda>importPath. case resolveImportPath root importPath x pp of
                    None \<Rightarrow> []
                  | Some resolvedPath \<Rightarrow>
                      (case map_get (nodeMapOf pp files) resolvedPath of
                         None \<Rightarrow> []
                       | Some targetId \<Rightarrow>
                           if targetId \<noteq> [] \<and> targetId \<noteq> nodeIdOf (path_relative pp x)
                           then [\<lparr>edge_source = nodeIdOf (path_relative pp x), edge_target = targetId\<rparr>]
                           else [])"
  have "e \<in> set (?F importPath)"
    using res y src tgt by (simp add: map_get_nodeMapOf e)
  with imp have "e \<in> set (concat (map ?F (extractImports content)))"
    unfolding set_concat set_map by blast
  then show ?L
    using rd x src by (simp add: fileEdges_def map_get_nodeMapOf Let_def)
qed

text \<open>The edge map: its keys are distinct, every entry is an edge of the list under its
  own key, and every edge of the list has its key in the map.\<close>

lemma set_map_set_subset: "set (map_set k v m) \<subseteq> insert (k, v) (set m)"
  by (induction m) (auto split: if_splits)

lemma edgeMapInv_step:
  assumes "edgeMapInv E m"
  shows "edgeMapInv (insert a E) (map_set (edgeKey a) a m)"
proof -
  from assms have d: "distinct (map fst m)"
    and el: "\<forall>p \<in> set m. fst p = edgeKey (snd p) \<and> snd p \<in> E"
    and keys: "fst ` set m = edgeKey ` E"
    unfolding edgeMapInv_def by blast+
  have "\<forall>p \<in> set (map_set (edgeKey a) a m). fst p = edgeKey (snd p) \<and> snd p \<in> insert a E"
  proof
    fix p assume "p \<in> set (map_set (edgeKey a) a m)"
    with set_map_set_subset [of "edgeKey a" a m] have "p = (edgeKey a, a) \<or> p \<in> set m" by blast
    with el show "fst p = edgeKey (snd p) \<and> snd p \<in> insert a E" by auto
  qed
  moreover have "fst ` set (map_set (edgeKey a) a m) = edgeKey ` insert a E"
    by (simp add: fst_set_map_set keys)
  ultimately show ?thesis
    using distinct_map_set [OF d, of "edgeKey a" a] unfolding edgeMapInv_def by blast
qed

lemma edgeMapInv_fold:
  "edgeMapInv E m \<Longrightarrow>
   edgeMapInv (E \<union> set edges) (fold (\<lambda>e m. map_set (edgeKey e) e m) edges m)"
proof (induction edges arbitrary: E m)
  case Nil
  then show ?case by simp
next
  case (Cons a edges)
  have "insert a E \<union> set edges = E \<union> set (a # edges)" by auto
  with Cons.IH [OF edgeMapInv_step [OF Cons.prems, of a]] show ?case by simp
qed

lemma uniqueEdges_props:
  "distinct (map edgeKey (uniqueEdges edges)) \<and>
   set (uniqueEdges edges) \<subseteq> set edges \<and>
   edgeKey ` set (uniqueEdges edges) = edgeKey ` set edges"
proof -
  let ?m = "fold (\<lambda>e m. map_set (edgeKey e) e m) edges []"
  have "edgeMapInv {} []" by (simp add: edgeMapInv_def)
  from edgeMapInv_fold [OF this, of edges] have inv: "edgeMapInv (set edges) ?m" by simp
  then have d: "distinct (map fst ?m)"
    and el: "\<forall>p \<in> set ?m. fst p = edgeKey (snd p) \<and> snd p \<in> set edges"
    and keys: "fst ` set ?m = edgeKey ` set edges"
    unfolding edgeMapInv_def by blast+
  from el have same: "map edgeKey (map snd ?m) = map fst ?m"
    unfolding map_map by (intro map_cong) simp_all
  have 1: "distinct (map edgeKey (uniqueEdges edges))"
    unfolding uniqueEdges_def by (simp only: same d)
  have 2: "set (uniqueEdges edges) \<subseteq> set edges"
    unfolding uniqueEdges_def using el by auto
  have "edgeKey ` set (map snd ?m) = set (map edgeKey (map snd ?m))" by (simp add: image_image)
  also have "\<dots> = fst ` set ?m" by (simp only: same set_map)
  finally have 3: "edgeKey ` set (uniqueEdges edges) = edgeKey ` set edges"
    unfolding uniqueEdges_def using keys by simp
  from 1 2 3 show ?thesis by blast
qed

lemma edgeKey_inj:
  assumes "edgeKey a = edgeKey b" and "CHR ''>'' \<notin> set (edge_source a)" "CHR ''>'' \<notin> set (edge_source b)"
  shows "a = b"
proof -
  have tw: "takeWhile (\<lambda>c. c \<noteq> CHR ''>'') (s @ ''->'' @ t) = s @ ''-''" if "CHR ''>'' \<notin> set s" for s t
    using that by (induction s) auto
  from assms have "edge_source a @ ''-'' = edge_source b @ ''-''"
    by (metis edgeKey_def tw)
  then have s: "edge_source a = edge_source b" by simp
  with assms(1) have "edge_target a = edge_target b" by (simp add: edgeKey_def)
  with s show ?thesis by simp
qed

lemma analyzeDependencies_edges:
  assumes "analyzeDependencies root now pp = Inr res" and "findSourceFiles root pp = Inr files"
  shows "dd_edges res =
           uniqueEdges (concat (map (fileEdges root pp (nodeMapOf pp files)) files))"
  using assms
  by (auto simp: analyzeDependencies_def nodeMapOf_def Let_def split: prod.splits)

lemma raw_edge_iff:
  "e \<in> set (concat (map (fileEdges root pp (nodeMapOf pp files)) files)) \<longleftrightarrow>
   edge_source e \<noteq> [] \<and> edge_target e \<noteq> [] \<and> edge_target e \<noteq> edge_source e \<and>
   (\<exists>x \<in> set files. \<exists>y \<in> set files.
      edge_source e = nodeIdOf (path_relative pp x) \<and>
      edge_target e = nodeIdOf (path_relative pp y) \<and> importsFile root pp x y)"
  unfolding set_concat set_map by (auto simp: fileEdges_iff)

text \<open>
  What holds of the edges, which join node ids. No two edges have the same ordered pair of
  source and target. Every edge joins two different ids, the id of a source file that
  was read and whose content holds a relative or alias-rooted import, and the id of the
  source file whose path that import resolves to. Conversely such an import between files
  with different, non-empty ids gives the edge of their ids, when no node id holds the
  character \<^verbatim>\<open>>\<close> (which keeps the keys \<^verbatim>\<open>source->target\<close> of the duplicate removal
  apart).
\<close>

lemma edges_characterized:
  assumes run: "analyzeDependencies root now projectPath = Inr res"
    and files: "findSourceFiles root projectPath = Inr files"
  shows "distinct (map (\<lambda>e. (edge_source e, edge_target e)) (dd_edges res)) \<and>
         (\<forall>e \<in> set (dd_edges res).
            edge_source e \<noteq> edge_target e \<and>
            (\<exists>x \<in> set files. \<exists>y \<in> set files.
               edge_source e = nodeIdOf (path_relative projectPath x) \<and>
               edge_target e = nodeIdOf (path_relative projectPath y) \<and>
               importsFile root projectPath x y)) \<and>
         (\<forall>x \<in> set files. \<forall>y \<in> set files.
            importsFile root projectPath x y \<and>
            nodeIdOf (path_relative projectPath x) \<noteq> nodeIdOf (path_relative projectPath y) \<and>
            nodeIdOf (path_relative projectPath x) \<noteq> [] \<and>
            nodeIdOf (path_relative projectPath y) \<noteq> [] \<and>
            (\<forall>n \<in> set (dd_nodes res). CHR ''>'' \<notin> set (node_id n)) \<longrightarrow>
            \<lparr>edge_source = nodeIdOf (path_relative projectPath x),
             edge_target = nodeIdOf (path_relative projectPath y)\<rparr> \<in> set (dd_edges res))"
proof -
  let ?raw = "concat (map (fileEdges root projectPath (nodeMapOf projectPath files)) files)"
  have edges: "dd_edges res = uniqueEdges ?raw"
    by (rule analyzeDependencies_edges [OF run files])
  from uniqueEdges_props [of ?raw] have
    dk: "distinct (map edgeKey (dd_edges res))" and sub: "set (dd_edges res) \<subseteq> set ?raw"
    and keys: "edgeKey ` set (dd_edges res) = edgeKey ` set ?raw"
    by (simp_all add: edges)
  have "map edgeKey (dd_edges res) =
        map (\<lambda>(s, t). s @ ''->'' @ t) (map (\<lambda>e. (edge_source e, edge_target e)) (dd_edges res))"
    by (simp add: edgeKey_def)
  with dk have "distinct (map (\<lambda>(s, t). s @ ''->'' @ t)
                    (map (\<lambda>e. (edge_source e, edge_target e)) (dd_edges res)))"
    by (simp only:)
  then have part1: "distinct (map (\<lambda>e. (edge_source e, edge_target e)) (dd_edges res))"
    unfolding distinct_map by (rule conjunct1)
  have part2: "\<forall>e \<in> set (dd_edges res).
            edge_source e \<noteq> edge_target e \<and>
            (\<exists>x \<in> set files. \<exists>y \<in> set files.
               edge_source e = nodeIdOf (path_relative projectPath x) \<and>
               edge_target e = nodeIdOf (path_relative projectPath y) \<and>
               importsFile root projectPath x y)"
  proof
    fix e assume "e \<in> set (dd_edges res)"
    with sub have "e \<in> set ?raw" by blast
    from raw_edge_iff [THEN iffD1, OF this]
    have a: "edge_target e \<noteq> edge_source e"
      and b: "\<exists>x \<in> set files. \<exists>y \<in> set files.
               edge_source e = nodeIdOf (path_relative projectPath x) \<and>
               edge_target e = nodeIdOf (path_relative projectPath y) \<and>
               importsFile root projectPath x y"
      by blast+
    from a have "edge_source e \<noteq> edge_target e" by simp
    then show "edge_source e \<noteq> edge_target e \<and>
            (\<exists>x \<in> set files. \<exists>y \<in> set files.
               edge_source e = nodeIdOf (path_relative projectPath x) \<and>
               edge_target e = nodeIdOf (path_relative projectPath y) \<and>
               importsFile root projectPath x y)"
      using b by (rule conjI)
  qed
  have ids: "node_id ` set (dd_nodes res) = (\<lambda>f. nodeIdOf (path_relative projectPath f)) ` set files"
    using analyzeDependencies_node_ids [OF run files] by (metis set_map)
  have part3: "\<forall>x \<in> set files. \<forall>y \<in> set files.
            importsFile root projectPath x y \<and>
            nodeIdOf (path_relative projectPath x) \<noteq> nodeIdOf (path_relative projectPath y) \<and>
            nodeIdOf (path_relative projectPath x) \<noteq> [] \<and>
            nodeIdOf (path_relative projectPath y) \<noteq> [] \<and>
            (\<forall>n \<in> set (dd_nodes res). CHR ''>'' \<notin> set (node_id n)) \<longrightarrow>
            \<lparr>edge_source = nodeIdOf (path_relative projectPath x),
             edge_target = nodeIdOf (path_relative projectPath y)\<rparr> \<in> set (dd_edges res)"
  proof (intro ballI impI)
    fix x y
    let ?e = "\<lparr>edge_source = nodeIdOf (path_relative projectPath x),
               edge_target = nodeIdOf (path_relative projectPath y)\<rparr>"
    assume x: "x \<in> set files" and y: "y \<in> set files"
      and h: "importsFile root projectPath x y \<and>
            nodeIdOf (path_relative projectPath x) \<noteq> nodeIdOf (path_relative projectPath y) \<and>
            nodeIdOf (path_relative projectPath x) \<noteq> [] \<and>
            nodeIdOf (path_relative projectPath y) \<noteq> [] \<and>
            (\<forall>n \<in> set (dd_nodes res). CHR ''>'' \<notin> set (node_id n))"
    then have imp: "importsFile root projectPath x y"
      and ne: "nodeIdOf (path_relative projectPath x) \<noteq> nodeIdOf (path_relative projectPath y)"
        "nodeIdOf (path_relative projectPath x) \<noteq> []"
        "nodeIdOf (path_relative projectPath y) \<noteq> []"
      and clean: "\<And>n. n \<in> set (dd_nodes res) \<Longrightarrow> CHR ''>'' \<notin> set (node_id n)"
      by blast+
    have clean_id: "CHR ''>'' \<notin> set (nodeIdOf (path_relative projectPath f))"
      if "f \<in> set files" for f
    proof -
      from that have "nodeIdOf (path_relative projectPath f) \<in> node_id ` set (dd_nodes res)"
        by (simp only: ids) (rule imageI)
      then obtain n where "n \<in> set (dd_nodes res)"
        "node_id n = nodeIdOf (path_relative projectPath f)" by auto
      with clean [of n] show ?thesis by simp
    qed
    have "edge_source ?e \<noteq> [] \<and> edge_target ?e \<noteq> [] \<and> edge_target ?e \<noteq> edge_source ?e \<and>
      (\<exists>x \<in> set files. \<exists>y \<in> set files.
         edge_source ?e = nodeIdOf (path_relative projectPath x) \<and>
         edge_target ?e = nodeIdOf (path_relative projectPath y) \<and>
         importsFile root projectPath x y)"
      using x y imp ne by auto
    then have "?e \<in> set ?raw" by (rule raw_edge_iff [THEN iffD2])
    then have "edgeKey ?e \<in> edgeKey ` set ?raw" by (rule imageI)
    then have "edgeKey ?e \<in> edgeKey ` set (dd_edges res)" by (simp only: keys)
    then obtain e' where e': "e' \<in> set (dd_edges res)" "edgeKey e' = edgeKey ?e" by auto
    from e'(1) part2 obtain x' where "x' \<in> set files"
      "edge_source e' = nodeIdOf (path_relative projectPath x')" by blast
    with clean_id [of x'] have 1: "CHR ''>'' \<notin> set (edge_source e')" by simp
    from clean_id [OF x] have 2: "CHR ''>'' \<notin> set (edge_source ?e)" by simp
    from edgeKey_inj [OF e'(2) 1 2] e'(1) show "?e \<in> set (dd_edges res)" by simp
  qed
  from part1 part2 part3 show ?thesis by blast
qed

text \<open>
  C2: there is an edge from X to Y exactly when the content of X holds an import that
  resolves to the file of Y, and X is not Y. The test against self-loops compares the
  ids, not the files: \<^verbatim>\<open>lib_utils.ts\<close> imports \<^verbatim>\<open>./lib/utils\<close>, which resolves to the
  other file \<^verbatim>\<open>lib/utils.ts\<close>; both have the id \<^verbatim>\<open>lib_utils\<close>, and the graph has no
  edge.
\<close>

theorem import_between_colliding_ids_gives_no_edge:
  "findSourceFiles demo_collision ''/proj'' = Inr [''/proj/lib/utils.ts'', ''/proj/lib_utils.ts''] \<and>
   readFileSync demo_collision ''/proj/lib_utils.ts'' = Inr demo_collision_import \<and>
   extractImports demo_collision_import = [''./lib/utils''] \<and>
   resolveImportPath demo_collision ''./lib/utils'' ''/proj/lib_utils.ts'' ''/proj''
     = Some ''/proj/lib/utils.ts'' \<and>
   ''/proj/lib_utils.ts'' \<noteq> ''/proj/lib/utils.ts'' \<and>
   analyzeDependencies demo_collision ''t'' ''/proj'' = Inr demo_collision_result \<and>
   dd_edges demo_collision_result = []"
  by code_simp

text \<open>The directory of the project exists, so that the files are those of the walk.\<close>

theorem import_between_colliding_ids_gives_no_edge_witness:
  "existsSync demo_collision ''/proj'' \<and>
   resolveImportPath demo_collision ''./lib/utils'' ''/proj/lib_utils.ts'' ''/proj''
     = Some ''/proj/lib/utils.ts'' \<and>
   analyzeDependencies demo_collision ''t'' ''/proj'' = Inr demo_collision_result \<and>
   dd_edges demo_collision_result = []"
proof -
  have "existsSync demo_collision ''/proj''"
    by code_simp
  with import_between_colliding_ids_gives_no_edge show ?thesis
    by blast
qed

lemma demo_imports_foo_bar:
  "importsFile demo_imports ''/proj'' ''/proj/lib/foo.ts'' ''/proj/lib/bar.ts''"
proof -
  have "readFileSync demo_imports ''/proj/lib/foo.ts'' =
          Inr (''import { bar } from '' @ [dquote] @ ''@/lib/bar'' @ [dquote] @
               '';\<newline>import './baz';\<newline>import { bar as b } from './bar';'')"
    by code_simp
  moreover have "''@/lib/bar'' \<in> set (extractImports
          (''import { bar } from '' @ [dquote] @ ''@/lib/bar'' @ [dquote] @
               '';\<newline>import './baz';\<newline>import { bar as b } from './bar';''))"
    by code_simp
  moreover have "resolveImportPath demo_imports ''@/lib/bar'' ''/proj/lib/foo.ts'' ''/proj''
      = Some ''/proj/lib/bar.ts''"
    by code_simp
  ultimately show ?thesis unfolding importsFile_def by blast
qed

lemma edges_characterized_example:
  "analyzeDependencies demo_imports ''t'' ''/proj'' = Inr demo_imports_result \<and>
   findSourceFiles demo_imports ''/proj'' =
     Inr [''/proj/lib/foo.ts'', ''/proj/lib/bar.ts'', ''/proj/lib/baz/index.ts''] \<and>
   distinct (map (\<lambda>e. (edge_source e, edge_target e)) (dd_edges demo_imports_result)) \<and>
   list_all (\<lambda>e. edge_source e \<noteq> edge_target e \<and>
      (\<exists>x \<in> set [''/proj/lib/foo.ts'', ''/proj/lib/bar.ts'', ''/proj/lib/baz/index.ts''].
       \<exists>y \<in> set [''/proj/lib/foo.ts'', ''/proj/lib/bar.ts'', ''/proj/lib/baz/index.ts''].
         edge_source e = nodeIdOf (path_relative ''/proj'' x) \<and>
         edge_target e = nodeIdOf (path_relative ''/proj'' y) \<and>
         importsFile demo_imports ''/proj'' x y)) (dd_edges demo_imports_result) \<and>
   importsFile demo_imports ''/proj'' ''/proj/lib/foo.ts'' ''/proj/lib/bar.ts'' \<and>
   \<lparr>edge_source = ''lib_foo'', edge_target = ''lib_bar''\<rparr> \<in> set (dd_edges demo_imports_result)"
proof -
  note inst = edges_characterized [OF demo_imports_run demo_imports_files]
  have ids: "nodeIdOf (path_relative ''/proj'' ''/proj/lib/foo.ts'') = ''lib_foo''"
    "nodeIdOf (path_relative ''/proj'' ''/proj/lib/bar.ts'') = ''lib_bar''"
    by code_simp+
  have clean: "\<forall>n \<in> set (dd_nodes demo_imports_result). CHR ''>'' \<notin> set (node_id n)"
    by (simp add: demo_imports_result_def)
  from inst have "\<lparr>edge_source = nodeIdOf (path_relative ''/proj'' ''/proj/lib/foo.ts''),
      edge_target = nodeIdOf (path_relative ''/proj'' ''/proj/lib/bar.ts'')\<rparr>
      \<in> set (dd_edges demo_imports_result)"
    using demo_imports_foo_bar clean by (simp add: ids)
  then have edge: "\<lparr>edge_source = ''lib_foo'', edge_target = ''lib_bar''\<rparr>
      \<in> set (dd_edges demo_imports_result)" by (simp only: ids)
  from inst demo_imports_run demo_imports_files demo_imports_foo_bar edge
  show ?thesis by (simp only: list_all_iff) blast
qed

subsection \<open>Relationships\<close>

lemma rm_caps:
  "capWord g r \<Longrightarrow> capsWord g st \<Longrightarrow> rm r st k = Some x \<Longrightarrow>
   \<exists>st'. k st' = Some x \<and> capsWord g st'"
proof (induction r arbitrary: st k)
  case (Lit s)
  let ?st = "st\<lparr>prev := (if s = [] then prev st else Some (last s)),
                  rest := drop (length s) (rest st)\<rparr>"
  from Lit have "k ?st = Some x" by (simp split: if_splits)
  moreover from Lit have "capsWord g ?st" by (simp add: capsWord_def)
  ultimately show ?case by blast
next
  case (One c)
  then obtain y ys where "rest st = y # ys" "k (st\<lparr>prev := Some y, rest := ys\<rparr>) = Some x"
    by (cases "rest st") (simp_all split: if_splits)
  moreover from One have "capsWord g (st\<lparr>prev := Some y, rest := ys\<rparr>)" by (simp add: capsWord_def)
  ultimately show ?case by blast
next
  case (Star c)
  then have "star (cc c) st k (rest st) = Some x" by simp
  from star_cont [OF this] obtain st' where "k st' = Some x" "caps st' = caps st" by blast
  with Star.prems(2) show ?case by (auto simp: capsWord_def)
next
  case (Plus c)
  then obtain y ys where r: "rest st = y # ys"
    and "star (cc c) (st\<lparr>prev := Some y\<rparr>) k ys = Some x"
    by (cases "rest st") (simp_all split: if_splits)
  from star_cont [OF this(2)] obtain st' where "k st' = Some x" "caps st' = caps st" by auto
  with Plus.prems(2) show ?case by (auto simp: capsWord_def)
next
  case (Seq a b)
  then have "rm a st (\<lambda>st'. rm b st' k) = Some x" and ca: "capWord g a" and cb: "capWord g b"
    by simp_all
  from Seq.IH(1) [OF ca Seq.prems(2) this(1)] obtain st1 where
    "rm b st1 k = Some x" "capsWord g st1" by blast
  from Seq.IH(2) [OF cb this(2) this(1)] show ?case .
next
  case (Alt a b)
  then have "rm a st k = Some x \<or> rm b st k = Some x" and ca: "capWord g a" and cb: "capWord g b"
    by (simp_all split: option.splits)
  then show ?case using Alt.IH(1) [OF ca Alt.prems(2)] Alt.IH(2) [OF cb Alt.prems(2)] by blast
next
  case (Opt a)
  then have "rm a st k = Some x \<or> k st = Some x" and ca: "capWord g a"
    by (simp_all split: option.splits)
  then show ?case using Opt.IH [OF ca Opt.prems(2)] Opt.prems(2) by blast
next
  case (Cap n a)
  let ?upd = "\<lambda>st'. st'\<lparr>caps := (n, take (length (rest st) - length (rest st')) (rest st)) # caps st'\<rparr>"
  from Cap.prems(3) have run: "rm a st (\<lambda>st'. k (?upd st')) = Some x" by simp
  show ?case
  proof (cases "n = g")
    case False
    with Cap.prems(1) have "capWord g a" by simp
    from Cap.IH [OF this Cap.prems(2) run] obtain st' where
      "k (?upd st') = Some x" "capsWord g st'" by blast
    moreover from this(2) False have "capsWord g (?upd st')" by (simp add: capsWord_def)
    ultimately show ?thesis by blast
  next
    case True
    with Cap.prems(1) have a: "a = Plus Wd" by simp
    from run a obtain y ys where r: "rest st = y # ys" and y: "is_word y"
      and "star (cc Wd) (st\<lparr>prev := Some y\<rparr>) (\<lambda>st'. k (?upd st')) ys = Some x"
      by (cases "rest st") (simp_all split: if_splits)
    from star_cont [OF this(3)] obtain m st' where
      m: "m \<le> length ys" "\<forall>c \<in> set (take m ys). cc Wd c"
         "(\<lambda>st'. k (?upd st')) st' = Some x" "rest st' = drop m ys"
      by blast
    from m(1,4) r have "take (length (rest st) - length (rest st')) (rest st) = y # take m ys"
      by simp
    with y m(2) have "wordName (take (length (rest st) - length (rest st')) (rest st))"
      by (simp add: wordName_def list_all_iff)
    with True have "capsWord g (?upd st')" by (simp add: capsWord_def)
    moreover from m(3) have "k (?upd st') = Some x" by simp
    ultimately show ?thesis by blast
  qed
next
  case Start
  then have "k st = Some x" by (simp split: if_splits)
  with Start.prems(2) show ?case by blast
next
  case Bol
  then have "k st = Some x" by (simp split: option.splits if_splits)
  with Bol.prems(2) show ?case by blast
next
  case Eol
  then have "k st = Some x" by (simp split: list.splits if_splits)
  with Eol.prems(2) show ?case by blast
next
  case End
  then have "k st = Some x" by (simp split: if_splits)
  with End.prems(2) show ?case by blast
qed

lemma match_here_caps:
  assumes "capWord g r" and "match_here r pv s = Some st"
  shows "capsWord g st"
proof -
  have "capsWord g \<lparr>prev = pv, rest = s, caps = []\<rparr>" by (simp add: capsWord_def)
  from rm_caps [OF assms(1) this, of Some st] assms(2) show ?thesis
    by (auto simp: match_here_def)
qed

lemma exec_caps:
  "capWord g r \<Longrightarrow> exec r pv s = Some (skipped, st) \<Longrightarrow> capsWord g st"
proof (induction s arbitrary: pv skipped)
  case Nil
  then show ?case using match_here_caps [of g r pv "[]" st] by auto
next
  case (Cons y ys)
  show ?case
  proof (cases "match_here r pv (y # ys)")
    case None
    with Cons.prems obtain sk where "exec r (Some y) ys = Some (sk, st)"
      by (auto split: option.splits)
    from Cons.IH [OF Cons.prems(1) this] show ?thesis .
  next
    case (Some st')
    with Cons.prems have "st' = st" by simp
    with Some match_here_caps [OF Cons.prems(1)] show ?thesis by simp
  qed
qed

lemma exec_all_caps:
  "capWord g r \<Longrightarrow> m \<in> set (exec_all r pv s) \<Longrightarrow> capsWord g m"
proof (induction r pv s rule: exec_all.induct)
  case (1 r pv s)
  show ?case
  proof (cases "exec r pv s")
    case None
    with "1.prems" show ?thesis by (subst (asm) exec_all.simps) simp
  next
    case (Some p)
    obtain skipped st where p: "p = (skipped, st)" by (cases p)
    from exec_caps [OF "1.prems"(1)] Some p have st: "capsWord g st" by simp
    show ?thesis
    proof (cases "length (rest st) < length s")
      case True
      with "1.prems"(2) Some p have "m = st \<or> m \<in> set (exec_all r (prev st) (rest st))"
        by (subst (asm) exec_all.simps) simp
      with st "1.IH" [OF Some p [symmetric] True "1.prems"(1)] show ?thesis by blast
    next
      case False
      with "1.prems"(2) Some p have "m = st" by (subst (asm) exec_all.simps) simp
      with st show ?thesis by simp
    qed
  qed
qed

lemma capture_word:
  "capsWord g m \<Longrightarrow> wordName (capture m g)"
  by (simp add: capsWord_def capture_def wordName_def split: option.splits)

lemma model_regexes_capture_words:
  "capWord 1 modelNameRegex" "capWord 1 modelRegex"
  by (simp_all add: modelNameRegex_def modelRegex_def)

lemma parseModels_names:
  assumes "parseModels content = (models, modelNames)"
  shows "\<forall>n \<in> set modelNames. wordName n" and "\<forall>m \<in> set models. wordName (model_name m)"
    and "\<forall>m \<in> set models. \<forall>f \<in> set (model_fields m). field_isRelation f \<longrightarrow> field_type f \<in> set modelNames"
proof -
  from assms have fm: "fst (parseModels content) = models"
    and sm: "snd (parseModels content) = modelNames" by simp_all
  from sm have names: "modelNames = map (\<lambda>m. capture m 1) (matchAll modelNameRegex content)"
    by (auto simp: parseModels_def Let_def)
  show n: "\<forall>n \<in> set modelNames. wordName n"
    unfolding names matchAll_def
    using exec_all_caps [OF model_regexes_capture_words(1)] capture_word by auto
  have models: "models =
      map (\<lambda>m. \<lparr>model_name = capture m 1,
                model_fields = List.map_filter (\<lambda>line. parseField line modelNames)
                                 (split_on newline (capture m 2))\<rparr>)
          (matchAll modelRegex content)"
    unfolding names using fm by (auto simp: parseModels_def Let_def)
  show "\<forall>m \<in> set models. wordName (model_name m)"
    unfolding models matchAll_def
    using exec_all_caps [OF model_regexes_capture_words(2)] capture_word by auto
  have pf: "field_type f \<in> set modelNames"
    if "parseField line modelNames = Some f" "field_isRelation f" for line f
    using that by (auto simp: parseField_def Let_def split: if_splits)
  show "\<forall>m \<in> set models. \<forall>f \<in> set (model_fields m). field_isRelation f \<longrightarrow> field_type f \<in> set modelNames"
    unfolding models using pf by (auto simp: map_filter_def)
qed

lemma wordName_no_dash: "wordName s \<Longrightarrow> CHR ''-'' \<notin> set s"
  by (auto simp: wordName_def list_all_iff is_word_def is_upper_def is_lower_def is_digit_def)

lemma dash_split:
  assumes "CHR ''-'' \<notin> set a" "CHR ''-'' \<notin> set c" "a @ ''-'' @ b = c @ ''-'' @ d"
  shows "a = c \<and> b = d"
proof -
  have tw: "takeWhile (\<lambda>x. x \<noteq> CHR ''-'') (s @ ''-'' @ t) = s" if "CHR ''-'' \<notin> set s" for s t
    using that by (induction s) auto
  from assms have "a = c" by (metis tw)
  with assms(3) show ?thesis by simp
qed

lemma relationKey_form:
  assumes "CHR ''-'' \<notin> set a" "CHR ''-'' \<notin> set b"
  shows "\<exists>x y. relationKey a b = x @ ''-'' @ y \<and> {x, y} = {a, b} \<and> CHR ''-'' \<notin> set x"
proof (cases "b < a")
  case True
  with assms show ?thesis
    by (intro exI [of _ b] exI [of _ a]) (auto simp: relationKey_def)
next
  case False
  with assms show ?thesis
    by (intro exI [of _ a] exI [of _ b]) (auto simp: relationKey_def)
qed

lemma relationKey_pair:
  assumes "CHR ''-'' \<notin> set a" "CHR ''-'' \<notin> set b" "CHR ''-'' \<notin> set c" "CHR ''-'' \<notin> set d"
  shows "(relationKey a b = relationKey c d) = ({a, b} = {c, d})"
proof
  assume eq: "relationKey a b = relationKey c d"
  from relationKey_form [OF assms(1,2)] obtain x y where
    1: "relationKey a b = x @ ''-'' @ y" "{x, y} = {a, b}" "CHR ''-'' \<notin> set x" by blast
  from relationKey_form [OF assms(3,4)] obtain x' y' where
    2: "relationKey c d = x' @ ''-'' @ y'" "{x', y'} = {c, d}" "CHR ''-'' \<notin> set x'" by blast
  from eq 1(1) 2(1) have "x @ ''-'' @ y = x' @ ''-'' @ y'" by simp
  from dash_split [OF 1(3) 2(3) this] 1(2) 2(2) show "{a, b} = {c, d}" by simp
next
  assume "{a, b} = {c, d}"
  then have "(a = c \<and> b = d) \<or> (a = d \<and> b = c)" by (auto simp: doubleton_eq_iff)
  then show "relationKey a b = relationKey c d"
    by (auto simp: relationKey_def)
qed

lemma firstsBy_append:
  "firstsBy key seen (xs @ ys) =
     firstsBy key seen xs @ firstsBy key (seen @ map key (firstsBy key seen xs)) ys"
  by (induction xs arbitrary: seen) simp_all

lemma set_firstsBy: "set (firstsBy key seen xs) \<subseteq> set xs"
  by (induction xs arbitrary: seen) auto

lemma filter_firstsBy:
  "filter (\<lambda>x. key x = k) (firstsBy key seen xs) =
     (if k \<in> set seen then []
      else case find (\<lambda>x. key x = k) xs of None \<Rightarrow> [] | Some x \<Rightarrow> [x])"
proof (induction xs arbitrary: seen)
  case Nil
  then show ?case by simp
next
  case (Cons x xs)
  show ?case
  proof (cases "key x \<in> set seen")
    case True
    then show ?thesis by (auto simp: Cons.IH)
  next
    case False
    then show ?thesis by (auto simp: Cons.IH)
  qed
qed

lemma fold_relationStep_fields:
  "fold (relationStep models m) fs (rels, seen) =
     (rels @ map (relationRecord models)
               (firstsBy occurrenceKey seen (map (Pair m) (filter field_isRelation fs))),
      seen @ map occurrenceKey
               (firstsBy occurrenceKey seen (map (Pair m) (filter field_isRelation fs))))"
proof (induction fs arbitrary: rels seen)
  case Nil
  then show ?case by simp
next
  case (Cons f fs)
  have step: "relationStep models m f (rels, seen) =
      (if field_isRelation f \<and> occurrenceKey (m, f) \<notin> set seen
       then (rels @ [relationRecord models (m, f)], seen @ [occurrenceKey (m, f)])
       else (rels, seen))"
    by (simp add: relationStep_def Let_def occurrenceKey_def relationRecord_def)
  show ?case by (simp add: step Cons.IH)
qed

lemma fold_relationStep_models:
  "fold (\<lambda>model st. fold (relationStep models model) (model_fields model) st) ms (rels, seen) =
     (rels @ map (relationRecord models) (firstsBy occurrenceKey seen (relationOccurrences ms)),
      seen @ map occurrenceKey (firstsBy occurrenceKey seen (relationOccurrences ms)))"
proof (induction ms arbitrary: rels seen)
  case Nil
  then show ?case by (simp add: relationOccurrences_def)
next
  case (Cons m ms)
  have occ: "relationOccurrences (m # ms) =
      map (Pair m) (filter field_isRelation (model_fields m)) @ relationOccurrences ms"
    by (simp add: relationOccurrences_def)
  show ?case
    by (simp add: fold_relationStep_fields Cons.IH occ firstsBy_append)
qed

lemma extractRelationships_firsts:
  "extractRelationships models =
     map (relationRecord models) (firstsBy occurrenceKey [] (relationOccurrences models))"
  by (simp add: extractRelationships_def fold_relationStep_models)

text \<open>
  C3: for two entities of a parsed schema that both declare a relation field pointing at
  the other, the relationships hold exactly one record for the unordered pair of their
  names, and it is the record of the first relation field, in the order of extraction,
  between the two names.
\<close>

theorem one_relationship_per_entity_pair:
  assumes parsed: "parseModels content = (models, modelNames)"
    and A: "A \<in> set models" and B: "B \<in> set models"
    and fa: "fa \<in> set (model_fields A)" "field_isRelation fa" "field_type fa = model_name B"
    and fb: "fb \<in> set (model_fields B)" "field_isRelation fb" "field_type fb = model_name A"
  shows "\<exists>first.
           find (\<lambda>occ. {model_name (fst occ), field_type (snd occ)} = {model_name A, model_name B})
                (relationOccurrences models) = Some first \<and>
           filter (\<lambda>r. {rel_from r, rel_to r} = {model_name A, model_name B})
                  (extractRelationships models) = [relationRecord models first]"
proof -
  let ?occs = "relationOccurrences models"
  let ?K = "relationKey (model_name A) (model_name B)"
  let ?pair = "\<lambda>occ. {model_name (fst occ), field_type (snd occ)} = {model_name A, model_name B}"
  note names = parseModels_names [OF parsed]
  have wordy: "wordName (model_name (fst occ)) \<and> wordName (field_type (snd occ))"
    if "occ \<in> set ?occs" for occ
  proof -
    from that obtain m f where occ: "occ = (m, f)" and m: "m \<in> set models"
      and f: "f \<in> set (model_fields m)" "field_isRelation f"
      by (auto simp: relationOccurrences_def)
    from names(3) m f have "field_type f \<in> set modelNames" by blast
    with names(1) have "wordName (field_type f)" by blast
    moreover from names(2) m have "wordName (model_name m)" by blast
    ultimately show ?thesis by (simp add: occ)
  qed
  have wa: "CHR ''-'' \<notin> set (model_name A)" and wb: "CHR ''-'' \<notin> set (model_name B)"
    using names(2) A B wordName_no_dash by blast+
  have key_pair: "(occurrenceKey occ = ?K) = ?pair occ" if "occ \<in> set ?occs" for occ
    unfolding occurrenceKey_def
    using wordy [OF that] wa wb by (intro relationKey_pair) (simp_all add: wordName_no_dash)
  have "(A, fa) \<in> set ?occs" using A fa by (auto simp: relationOccurrences_def)
  moreover have "?pair (A, fa)" using fa by simp
  ultimately have "find ?pair ?occs \<noteq> None" by (auto simp: find_None_iff)
  then obtain first where first: "find ?pair ?occs = Some first" by blast
  have same_find: "find (\<lambda>occ. occurrenceKey occ = ?K) ?occs = find ?pair ?occs"
    by (rule find_cong) (simp_all add: key_pair)
  have "filter (\<lambda>r. {rel_from r, rel_to r} = {model_name A, model_name B})
               (extractRelationships models) =
        map (relationRecord models)
            (filter ?pair (firstsBy occurrenceKey [] ?occs))"
    by (simp add: extractRelationships_firsts filter_map o_def relationRecord_def)
  also have "filter ?pair (firstsBy occurrenceKey [] ?occs) =
             filter (\<lambda>occ. occurrenceKey occ = ?K) (firstsBy occurrenceKey [] ?occs)"
    by (rule filter_cong) (use set_firstsBy [of occurrenceKey "[]" ?occs] key_pair in auto)
  also have "\<dots> = [first]"
    by (simp add: filter_firstsBy same_find first)
  finally show ?thesis using first by simp
qed

lemma demo_schema_models:
  "parseModels demo_schema = (demo_models, [''User'', ''Post''])"
  by code_simp

theorem one_relationship_per_entity_pair_witness:
  "parseModels demo_schema = (demo_models, [''User'', ''Post'']) \<and>
   demo_models ! 0 \<in> set demo_models \<and> demo_models ! 1 \<in> set demo_models \<and>
   model_fields (demo_models ! 0) ! 1 \<in> set (model_fields (demo_models ! 0)) \<and>
   field_isRelation (model_fields (demo_models ! 0) ! 1) \<and>
   field_type (model_fields (demo_models ! 0) ! 1) = model_name (demo_models ! 1) \<and>
   model_fields (demo_models ! 1) ! 1 \<in> set (model_fields (demo_models ! 1)) \<and>
   field_isRelation (model_fields (demo_models ! 1) ! 1) \<and>
   field_type (model_fields (demo_models ! 1) ! 1) = model_name (demo_models ! 0) \<and>
   (\<exists>first.
      find (\<lambda>occ. {model_name (fst occ), field_type (snd occ)} =
                   {model_name (demo_models ! 0), model_name (demo_models ! 1)})
           (relationOccurrences demo_models) = Some first \<and>
      filter (\<lambda>r. {rel_from r, rel_to r} = {model_name (demo_models ! 0), model_name (demo_models ! 1)})
             (extractRelationships demo_models) = [relationRecord demo_models first])"
proof -
  have h: "demo_models ! 0 \<in> set demo_models" "demo_models ! 1 \<in> set demo_models"
    "model_fields (demo_models ! 0) ! 1 \<in> set (model_fields (demo_models ! 0))"
    "field_isRelation (model_fields (demo_models ! 0) ! 1)"
    "field_type (model_fields (demo_models ! 0) ! 1) = model_name (demo_models ! 1)"
    "model_fields (demo_models ! 1) ! 1 \<in> set (model_fields (demo_models ! 1))"
    "field_isRelation (model_fields (demo_models ! 1) ! 1)"
    "field_type (model_fields (demo_models ! 1) ! 1) = model_name (demo_models ! 0)"
    by (simp_all add: demo_models_def)
  from one_relationship_per_entity_pair [OF demo_schema_models h] demo_schema_models h show ?thesis by blast
qed


end
